theory Spec2Isabelle
  imports Complex_Main "HOL-Library.Sublist" "HOL-Library.Multiset"
begin

chapter \<open>The model\<close>

section \<open>JavaScript primitives used by the pipeline\<close>

text \<open>
  Numbers. Engagement counters and millisecond timestamps are integers; ratios and sums
  with fractional weights are exact rationals (the source computes them in IEEE doubles,
  the model in exact arithmetic). \<open>Math.round\<close> rounds to the nearest integer, a half
  going up.
\<close>

definition Math_round :: "rat \<Rightarrow> int" where
  "Math_round x = \<lfloor>x + 1 / 2\<rfloor>"

text \<open>\<open>new Date(x)\<close> drops the fraction of a millisecond value (towards zero).\<close>

definition Date_of :: "rat \<Rightarrow> int" where
  "Date_of x = (if 0 \<le> x then \<lfloor>x\<rfloor> else \<lceil>x\<rceil>)"

text \<open>
  Strings are lists of characters. \<open>toLowerCase\<close> is modelled on the ASCII letters,
  \<open>s.includes(sub)\<close> is the test for a contiguous occurrence.
\<close>

definition toLowerCase_char :: "char \<Rightarrow> char" where
  "toLowerCase_char c =
     (case map_of (zip ''ABCDEFGHIJKLMNOPQRSTUVWXYZ'' ''abcdefghijklmnopqrstuvwxyz'') c of
        None \<Rightarrow> c
      | Some l \<Rightarrow> l)"

definition toLowerCase :: "string \<Rightarrow> string" where
  "toLowerCase s = map toLowerCase_char s"

fun str_includes :: "string \<Rightarrow> string \<Rightarrow> bool" where
  "str_includes [] sub = (sub = [])"
| "str_includes (c # cs) sub = (prefix sub (c # cs) \<or> str_includes cs sub)"

text \<open>\<open>\w\<close> of a regular expression: an ASCII letter, a digit or the underscore.\<close>

definition is_word_char :: "char \<Rightarrow> bool" where
  "is_word_char c =
     (let n = (of_char c :: nat) in
        (48 \<le> n \<and> n \<le> 57) \<or> (65 \<le> n \<and> n \<le> 90) \<or> n = 95 \<or> (97 \<le> n \<and> n \<le> 122))"

text \<open>
  \<open>s.match(/#\w+/g) || []\<close>: every maximal run of word characters that follows a
  \<open>#\<close>, scanning from the left and resuming after each match.
\<close>

function match_hashtags :: "string \<Rightarrow> string list" where
  "match_hashtags [] = []"
| "match_hashtags (c # cs) =
     (if c = CHR ''#'' \<and> takeWhile is_word_char cs \<noteq> []
      then (c # takeWhile is_word_char cs) # match_hashtags (dropWhile is_word_char cs)
      else match_hashtags cs)"
  by pat_completeness auto
termination
  by (relation "measure length") (auto simp: length_dropWhile_le less_Suc_eq_le)

text \<open>\<open>s.split('_')[0]\<close>: the part of \<open>s\<close> before its first underscore.\<close>

definition split_first :: "string \<Rightarrow> string" where
  "split_first s = takeWhile (\<lambda>c. c \<noteq> CHR ''_'') s"

text \<open>\<open>a || b\<close> on strings: the empty string is falsy.\<close>

definition str_or :: "string \<Rightarrow> string \<Rightarrow> string" where
  "str_or a b = (if a = [] then b else a)"

text \<open>\<open>x || d\<close> on an optional string: \<open>undefined\<close>, \<open>null\<close> and \<open>''\<close> are falsy.\<close>

definition opt_or :: "string option \<Rightarrow> string \<Rightarrow> string" where
  "opt_or x d = (case x of None \<Rightarrow> d | Some s \<Rightarrow> str_or s d)"

section \<open>Data model\<close>

text \<open>
  \<open>RedditPost\<close> (RedditProvider.ts): the fields of a listing child that the
  normaliser, the quality filter and the scorer read. The media fields (\<open>url\<close>,
  \<open>permalink\<close>, \<open>thumbnail\<close>, \<open>media\<close>, \<open>preview\<close>) only feed \<open>media_urls\<close> and
  \<open>post_url\<close> and are left out.
\<close>

record RedditPost =
  reddit_id :: string
  title :: string
  selftext :: string
  author :: string
  subreddit :: string
  score :: int
  upvote_ratio :: rat
  num_comments :: int
  created_utc :: rat
  over_18 :: bool
  stickied :: bool

text \<open>
  \<open>TrendingPost\<close> (types/trending.ts). \<open>trend_category\<close> and \<open>sentiment\<close> are
  optional in the interface. The analysis service reads posts back from the store as
  untyped rows; there a \<open>null\<close> column behaves like the empty value of its type in every
  use modelled below (\<open>post.hashtags || []\<close>, \<open>post.content || ''\<close>,
  \<open>post.platform_post_id?.split('_')[0] || 'unknown'\<close>), and \<open>sentiment\<close> may be any
  string. Times are milliseconds since the epoch. Fields that no modelled operation
  reads (\<open>author_display_name\<close>, \<open>author_followers\<close>, \<open>media_urls\<close>, \<open>mentions\<close>,
  \<open>post_url\<close>, \<open>discovered_at\<close>) are left out.
\<close>

record TrendingPost =
  post_id :: string
  platform :: string
  platform_post_id :: string
  author_username :: string
  content :: string
  hashtags :: "string list"
  engagement_score :: int
  likes :: int
  shares :: int
  comments :: int
  views :: int
  published_at :: int
  trend_category :: "string option"
  sentiment :: "string option"

section \<open>PostNormalizer, QualityFilter and EngagementScorer for Reddit\<close>

text \<open>\<open>RedditProvider.calculateRecencyBonus\<close>; \<open>now\<close> is the reading of \<open>Date.now()\<close>.\<close>

definition calculateRecencyBonus :: "int \<Rightarrow> rat \<Rightarrow> rat" where
  "calculateRecencyBonus now createdUtc =
     (let hoursAgo = (of_int now / 1000 - createdUtc) / 3600 in
        if hoursAgo \<le> 2 then 100
        else if hoursAgo \<le> 6 then 50
        else if hoursAgo \<le> 12 then 25
        else 0)"

text \<open>\<open>RedditProvider.calculateEngagementScore\<close>.\<close>

definition Reddit_calculateEngagementScore :: "int \<Rightarrow> RedditPost \<Rightarrow> int" where
  "Reddit_calculateEngagementScore now post =
     (let adjustedUpvotes =
            of_int (score post) * (if upvote_ratio post = 0 then 1 / 2 else upvote_ratio post);
          commentWeight = of_int (num_comments post) * 3;
          ratioBonus = (if upvote_ratio post > 8 / 10 then of_int (score post) * (1 / 2) else 0);
          recencyBonus = calculateRecencyBonus now (created_utc post)
      in Math_round (adjustedUpvotes + commentWeight + ratioBonus + recencyBonus))"

text \<open>\<open>RedditProvider.categorizeRedditPost\<close>.\<close>

definition some_term :: "string list \<Rightarrow> string \<Rightarrow> string \<Rightarrow> bool" where
  "some_term terms sub text = list_ex (\<lambda>t. str_includes sub t \<or> str_includes text t) terms"

definition categorizeRedditPost :: "RedditPost \<Rightarrow> string" where
  "categorizeRedditPost post =
     (let sub = toLowerCase (subreddit post);
          text = toLowerCase (title post @ '' '' @ selftext post)
      in
        if some_term [''technology'', ''programming'', ''webdev'', ''javascript'', ''python'',
             ''machinelearning'', ''artificial'', ''crypto'', ''bitcoin'', ''ethereum''] sub text
        then ''Technology''
        else if some_term [''movies'', ''television'', ''music'', ''entertainment'', ''celebrity'',
             ''netflix'', ''gaming'', ''games''] sub text
        then ''Entertainment''
        else if some_term [''sports'', ''nfl'', ''nba'', ''soccer'', ''football'', ''basketball'',
             ''hockey'', ''baseball''] sub text
        then ''Sports''
        else if some_term [''news'', ''worldnews'', ''politics'', ''political'', ''election'',
             ''government''] sub text
        then ''News & Politics''
        else if some_term [''business'', ''finance'', ''investing'', ''stocks'', ''economy'',
             ''entrepreneur'', ''startup''] sub text
        then ''Business''
        else if some_term [''food'', ''fitness'', ''fashion'', ''travel'', ''health'', ''cooking'',
             ''style'', ''beauty''] sub text
        then ''Lifestyle''
        else if some_term [''meme'', ''dankmemes'', ''funny'', ''viral'', ''internetculture'',
             ''socialmedia''] sub text
        then ''Social Media''
        else ''General'')"

text \<open>\<open>RedditProvider.analyzeSentiment\<close>.\<close>

definition Reddit_analyzeSentiment :: "string \<Rightarrow> string" where
  "Reddit_analyzeSentiment text =
     (let positiveWords = [''amazing'', ''awesome'', ''great'', ''excellent'', ''fantastic'',
            ''wonderful'', ''love'', ''best'', ''incredible'', ''brilliant''];
          negativeWords = [''terrible'', ''awful'', ''horrible'', ''worst'', ''hate'',
            ''disgusting'', ''disappointed'', ''failed'', ''disaster'', ''tragic''];
          lowerText = toLowerCase text;
          positiveCount = length (filter (str_includes lowerText) positiveWords);
          negativeCount = length (filter (str_includes lowerText) negativeWords)
      in if positiveCount > negativeCount then ''positive''
         else if negativeCount > positiveCount then ''negative''
         else ''neutral'')"

text \<open>
  \<open>RedditProvider.transformPost\<close>. \<open>likes\<close> is the Reddit score; \<open>shares\<close> and
  \<open>comments\<close> are both set from \<open>num_comments\<close>; \<open>views\<close> is 0.
\<close>

definition transformPost :: "int \<Rightarrow> RedditPost \<Rightarrow> TrendingPost" where
  "transformPost now post =
     \<lparr> post_id = ''reddit_'' @ reddit_id post,
       platform = ''reddit'',
       platform_post_id = subreddit post @ ''_'' @ reddit_id post,
       author_username = author post,
       content = (if selftext post \<noteq> [] then title post @ [CHR 0x0A, CHR 0x0A] @ selftext post
                  else title post),
       hashtags = (CHR ''#'' # toLowerCase (subreddit post)) # match_hashtags (title post),
       engagement_score = Reddit_calculateEngagementScore now post,
       likes = score post,
       shares = num_comments post,
       comments = num_comments post,
       views = 0,
       published_at = Date_of (created_utc post * 1000),
       trend_category = Some (categorizeRedditPost post),
       sentiment = Some (Reddit_analyzeSentiment (title post)) \<rparr>"

text \<open>\<open>RedditProvider.isValidPost\<close>, the quality filter.\<close>

definition isValidPost :: "RedditPost \<Rightarrow> bool" where
  "isValidPost post \<longleftrightarrow>
     title post \<noteq> [] \<and>
     length (title post) > 5 \<and>
     \<not> stickied post \<and>
     \<not> over_18 post \<and>
     score post > 50 \<and>
     num_comments post > 5 \<and>
     upvote_ratio post > 6 / 10 \<and>
     author post \<noteq> ''[deleted]'' \<and>
     subreddit post \<noteq> [] \<and>
     \<not> str_includes (toLowerCase (title post)) ''test''"

text \<open>
  \<open>RedditProvider.transformRedditData\<close>: filter, then normalise (the final
  \<open>post !== null\<close> filter removes nothing, \<open>transformPost\<close> never returns \<open>null\<close>).
\<close>

definition transformRedditData :: "int \<Rightarrow> RedditPost list \<Rightarrow> TrendingPost list" where
  "transformRedditData now posts = map (transformPost now) (filter isValidPost posts)"

section \<open>PostNormalizer, QualityFilter and EngagementScorer for Twitter\<close>

text \<open>
  \<open>public_metrics\<close> of a tweet as the search API returns it; a counter may be absent.
\<close>

record PublicMetrics =
  like_count :: "int option"
  retweet_count :: "int option"
  reply_count :: "int option"
  quote_count :: "int option"
  bookmark_count :: "int option"
  impression_count :: "int option"

record ContextAnnotation =
  domain_name :: "string option"
  entity_name :: "string option"

text \<open>
  A tweet of the response. \<open>created_at\<close> is the parsed time in milliseconds.
\<close>

record Tweet =
  tweet_id :: string
  tweet_text :: "string option"
  author_id :: string
  public_metrics :: "PublicMetrics option"
  context_annotations :: "ContextAnnotation list"
  created_at :: "int option"

record TwitterUser =
  user_id :: string
  username :: "string option"

text \<open>A missing counter counts as 0 (the destructuring defaults, and \<open>x || 0\<close>).\<close>

definition num_or_0 :: "int option \<Rightarrow> int" where
  "num_or_0 x = (case x of None \<Rightarrow> 0 | Some v \<Rightarrow> v)"

text \<open>\<open>TrendingAnalysisService.calculateEngagementScore\<close>.\<close>

definition Twitter_calculateEngagementScore :: "PublicMetrics \<Rightarrow> int" where
  "Twitter_calculateEngagementScore metrics =
     (let like = num_or_0 (like_count metrics);
          retweet = num_or_0 (retweet_count metrics);
          reply = num_or_0 (reply_count metrics);
          quote = num_or_0 (quote_count metrics);
          bookmark = num_or_0 (bookmark_count metrics);
          impression = num_or_0 (impression_count metrics);
          engagementScore =
            of_int like * 1 + of_int retweet * 3 + of_int reply * 4 + of_int quote * 3 +
            of_int bookmark * 2 + of_int impression * (1 / 1000)
      in Math_round engagementScore)"

text \<open>\<open>TrendingAnalysisService.extractHashtags\<close>.\<close>

definition extractHashtags :: "string \<Rightarrow> string list" where
  "extractHashtags text = map toLowerCase (match_hashtags text)"

text \<open>
  \<open>TrendingAnalysisService.determineTrendCategory\<close>: the table of categories, each
  with its hashtags, keywords and context names, tried in this order.
\<close>

definition trend_categories :: "(string \<times> string list \<times> string list \<times> string list) list" where
  "trend_categories =
     [(''Technology'',
        [''#tech'', ''#ai'', ''#coding'', ''#software'', ''#app'', ''#crypto'', ''#blockchain'',
         ''#web3'', ''#ml''],
        [''artificial intelligence'', ''machine learning'', ''blockchain'', ''cryptocurrency'',
         ''software'', ''app'', ''tech'', ''digital''],
        [''Technology'', ''Software'', ''Cryptocurrency'']),
      (''Entertainment'',
        [''#movie'', ''#music'', ''#celebrity'', ''#show'', ''#entertainment'', ''#netflix'',
         ''#spotify'', ''#viral'', ''#trending''],
        [''movie'', ''music'', ''celebrity'', ''actor'', ''singer'', ''show'', ''series'', ''film'',
         ''album''],
        [''Entertainment'', ''Music'', ''Movies'', ''Television'']),
      (''Sports'',
        [''#football'', ''#basketball'', ''#soccer'', ''#nfl'', ''#nba'', ''#sports'', ''#game'',
         ''#fifa''],
        [''football'', ''basketball'', ''soccer'', ''game'', ''player'', ''team'', ''match'',
         ''championship''],
        [''Sports'', ''Football'', ''Basketball'', ''Soccer'']),
      (''Business'',
        [''#business'', ''#startup'', ''#entrepreneur'', ''#investing'', ''#stocks'', ''#finance'',
         ''#money''],
        [''business'', ''startup'', ''money'', ''investment'', ''finance'', ''stocks'', ''market'',
         ''economy''],
        [''Business'', ''Finance'', ''Entrepreneurship'']),
      (''Lifestyle'',
        [''#fashion'', ''#food'', ''#travel'', ''#fitness'', ''#health'', ''#style'', ''#beauty'',
         ''#wellness''],
        [''fashion'', ''food'', ''travel'', ''fitness'', ''health'', ''style'', ''beauty'',
         ''workout''],
        [''Fashion'', ''Food'', ''Travel'', ''Health'']),
      (''News & Politics'',
        [''#news'', ''#politics'', ''#breaking'', ''#election'', ''#government'', ''#policy''],
        [''news'', ''politics'', ''election'', ''government'', ''president'', ''vote'', ''policy''],
        [''Politics'', ''Government'', ''News'']),
      (''Social Media'',
        [''#viral'', ''#trending'', ''#meme'', ''#tiktok'', ''#instagram'', ''#twitter'',
         ''#socialmedia''],
        [''viral'', ''trending'', ''meme'', ''influencer'', ''content creator'', ''social media''],
        [''Social Media'', ''Internet Culture''])]"

definition opt_includes :: "string option \<Rightarrow> string \<Rightarrow> bool" where
  "opt_includes x sub = (case x of None \<Rightarrow> False | Some s \<Rightarrow> str_includes s sub)"

definition first_category ::
  "(string list \<Rightarrow> string list \<Rightarrow> string list \<Rightarrow> bool) \<Rightarrow> string option" where
  "first_category hit =
     map_option fst (find (\<lambda>(category, tags, keywords, contexts). hit tags keywords contexts)
       trend_categories)"

definition determineTrendCategory ::
  "string \<Rightarrow> string list \<Rightarrow> ContextAnnotation list \<Rightarrow> string" where
  "determineTrendCategory text tags contextAnnotations =
     (let lowerText = toLowerCase text in
      case first_category (\<lambda>hs ks cs. list_ex (\<lambda>tag. toLowerCase tag \<in> set hs) tags) of
        Some category \<Rightarrow> category
      | None \<Rightarrow>
         (case first_category (\<lambda>hs ks cs.
                  list_ex (\<lambda>ctx. list_ex (\<lambda>context.
                      opt_includes (domain_name ctx) context \<or>
                      opt_includes (entity_name ctx) context) cs) contextAnnotations) of
            Some category \<Rightarrow> category
          | None \<Rightarrow>
             (case first_category (\<lambda>hs ks cs. list_ex (str_includes lowerText) ks) of
                Some category \<Rightarrow> category
              | None \<Rightarrow> ''General'')))"

text \<open>\<open>TrendingAnalysisService.analyzeSentiment\<close>.\<close>

definition Twitter_analyzeSentiment :: "string \<Rightarrow> string" where
  "Twitter_analyzeSentiment text =
     (let positiveWords = [''amazing'', ''great'', ''awesome'', ''love'', ''best'', ''incredible''];
          negativeWords = [''terrible'', ''hate'', ''worst'', ''awful'', ''bad'', ''horrible''];
          lowerText = toLowerCase text;
          positiveCount = length (filter (str_includes lowerText) positiveWords);
          negativeCount = length (filter (str_includes lowerText) negativeWords)
      in if positiveCount > negativeCount then ''positive''
         else if negativeCount > positiveCount then ''negative''
         else ''neutral'')"

text \<open>
  The body of the \<open>map\<close> in \<open>TrendingAnalysisService.transformTwitterData\<close>.
  \<open>usersMap\<close> is filled from \<open>includes.users\<close> in order, a later user replacing an
  earlier one with the same id (the ids of the API are decimal numerals, none of them
  names an inherited property of the map). Of the author only the \<open>username\<close> is kept.
\<close>

definition usersMap :: "TwitterUser list \<Rightarrow> string \<Rightarrow> TwitterUser option" where
  "usersMap users = map_of (rev (map (\<lambda>u. (user_id u, u)) users))"

definition metrics_of :: "Tweet \<Rightarrow> PublicMetrics" where
  "metrics_of tweet =
     (case public_metrics tweet of
        None \<Rightarrow> \<lparr> like_count = None, retweet_count = None, reply_count = None,
                   quote_count = None, bookmark_count = None, impression_count = None \<rparr>
      | Some m \<Rightarrow> m)"

definition transformTweet :: "int \<Rightarrow> TwitterUser list \<Rightarrow> Tweet \<Rightarrow> TrendingPost" where
  "transformTweet now users tweet =
     (let author_name = (case usersMap users (author_id tweet) of
                           None \<Rightarrow> None | Some u \<Rightarrow> username u);
          text = opt_or (tweet_text tweet) '''';
          tags = extractHashtags text
      in \<lparr> post_id = tweet_id tweet,
           platform = ''twitter'',
           platform_post_id = tweet_id tweet,
           author_username = opt_or author_name ''unknown'',
           content = text,
           hashtags = tags,
           engagement_score = Twitter_calculateEngagementScore (metrics_of tweet),
           likes = num_or_0 (like_count (metrics_of tweet)),
           shares = num_or_0 (retweet_count (metrics_of tweet)),
           comments = num_or_0 (reply_count (metrics_of tweet)),
           views = num_or_0 (impression_count (metrics_of tweet)),
           published_at = (case created_at tweet of None \<Rightarrow> now | Some t \<Rightarrow> t),
           trend_category = Some (determineTrendCategory text tags (context_annotations tweet)),
           sentiment = Some (Twitter_analyzeSentiment text) \<rparr>)"

text \<open>
  \<open>TrendingAnalysisService.transformTwitterData\<close>: \<open>data\<close> is \<open>twitterData.data\<close>
  (\<open>None\<close> when it is missing or not an array), \<open>users\<close> is \<open>includes.users\<close>.
\<close>

definition transformTwitterData ::
  "int \<Rightarrow> Tweet list option \<Rightarrow> TwitterUser list \<Rightarrow> TrendingPost list" where
  "transformTwitterData now data users =
     (case data of
        None \<Rightarrow> []
      | Some tweets \<Rightarrow>
          take 100
            (sort_key (\<lambda>p. - engagement_score p)
              (filter (\<lambda>post. content post \<noteq> [] \<and> length (content post) > 5 \<and>
                          author_username post \<noteq> ''unknown'' \<and> engagement_score post > 0)
                (map (transformTweet now users) tweets))))"

section \<open>Deduplicator\<close>

text \<open>
  \<open>removeDuplicatePosts\<close> (the same body in \<open>RedditProvider\<close> and in
  \<open>TrendingAnalysisService\<close>): a filter that threads the set \<open>seen\<close> of the keys met
  so far; the key of a post is its \<open>platform_post_id\<close>.
\<close>

fun dedup_filter :: "string set \<Rightarrow> TrendingPost list \<Rightarrow> TrendingPost list" where
  "dedup_filter seen [] = []"
| "dedup_filter seen (post # posts) =
     (let key = platform_post_id post in
        if key \<in> seen then dedup_filter seen posts
        else post # dedup_filter (insert key seen) posts)"

definition removeDuplicatePosts :: "TrendingPost list \<Rightarrow> TrendingPost list" where
  "removeDuplicatePosts posts = dedup_filter {} posts"

section \<open>TrendSummarizer: the sentiment distribution\<close>




section \<open>Discovery trigger: the gate on the time of the last discovery\<close>

text \<open>
  The table \<open>trending_posts\<close>, reduced to the two columns the gate depends on: the
  \<open>platform_post_id\<close> of a row (declared \<open>UNIQUE\<close>) and its \<open>discovered_at\<close> in
  milliseconds. \<open>storeTrendingPosts\<close> is the only writer of the table and sets
  \<open>discovered_at\<close> in every row it writes.
\<close>

type_synonym trending_posts = "(string \<times> int) list"


text \<open>
  \<open>TrendingAnalysisService.storeTrendingPosts\<close>. One upsert per post, each row stamped
  with the \<open>new Date()\<close> of that moment. The answer of the database to the \<open>i\<close>-th upsert
  of the call is the parameter \<open>upsert i post\<close>: \<open>Some stamp\<close> when the row was written
  with that stamp, \<open>None\<close> when the database answered with an error or the call threw;
  the loop logs the error and goes on. A written row replaces the row with the same
  \<open>platform_post_id\<close> if there is one.
\<close>

fun upsert_row :: "string \<Rightarrow> int \<Rightarrow> trending_posts \<Rightarrow> trending_posts" where
  "upsert_row key stamp [] = [(key, stamp)]"
| "upsert_row key stamp (row # rows) =
     (if fst row = key then (key, stamp) # rows else row # upsert_row key stamp rows)"

definition storeTrendingPosts ::
  "(nat \<Rightarrow> TrendingPost \<Rightarrow> int option) \<Rightarrow> TrendingPost list \<Rightarrow> trending_posts \<Rightarrow> trending_posts" where
  "storeTrendingPosts upsert posts table =
     (if length posts = 0 then table
      else foldl (\<lambda>rows (i, post).
                    case upsert i post of
                      Some stamp \<Rightarrow> upsert_row (platform_post_id post) stamp rows
                    | None \<Rightarrow> rows) table (enumerate 0 posts))"

text \<open>
  \<open>POST\<close> of the route \<open>api/trending/discover\<close>. \<open>testMode\<close> is the query flag
  \<open>test=true\<close>; \<open>now\<close> is \<open>Date.now()\<close>; \<open>fetched\<close> is what \<open>fetchTwitterTrends(100)\<close>
  yields when it is called: the posts, or the message of the error it throws; \<open>table\<close>
  is the content of \<open>trending_posts\<close> when the request arrives. The result is the list
  of the collaborators called, in order, the response, and the content of the table
  afterwards. \<open>testTwitterConnection\<close> sends a search request to the Twitter API when
  the bearer token is configured. \<open>recordDiscoveryTime\<close> has an empty body and is never
  called. The steps that follow the store (the count, the analysis and the
  suggestions) do not write to \<open>trending_posts\<close>; they are taken to succeed.
\<close>

datatype call = TestTwitterConnection | GetLastDiscoveryTime | FetchTwitterTrends
  | StoreTrendingPosts | AnalyzeTrends



section \<open>TrendClusterer\<close>

text \<open>
  The candidate group keys of a post, in priority order
  (\<open>groupKeys\<close> in \<open>TrendingAnalysisService.groupPostsByTrends\<close>). For a Reddit post:
  the category, then \<open>r/\<close> and the subreddit, then the first three keywords of the
  content; for any other post: the first two hashtags, then the category. The keyword
  extractor \<open>extractKeywords\<close> is a parameter of the model.
\<close>

definition groupKeys :: "(string \<Rightarrow> string list) \<Rightarrow> TrendingPost \<Rightarrow> string list" where
  "groupKeys extractKeywords post =
     (if platform post = ''reddit'' then
        let category = opt_or (trend_category post) ''General'';
            subreddit = str_or (split_first (platform_post_id post)) ''unknown'';
            keywords = take 3 (extractKeywords (content post))
        in [category, ''r/'' @ subreddit] @ keywords
      else
        let tags = hashtags post;
            category = opt_or (trend_category post) ''General''
        in take 2 tags @ [category])"

text \<open>
  The key of a post: the first candidate that is non-empty and is not the string
  \<open>undefined\<close>; failing that the category, failing that \<open>general\<close>.
\<close>

definition group_key :: "(string \<Rightarrow> string list) \<Rightarrow> TrendingPost \<Rightarrow> string" where
  "group_key extractKeywords post =
     (case find (\<lambda>k. k \<noteq> [] \<and> k \<noteq> ''undefined'') (groupKeys extractKeywords post) of
        Some k \<Rightarrow> k
      | None \<Rightarrow> opt_or (trend_category post) ''general'')"

text \<open>
  The object \<open>groups\<close> is a list of its own properties (key and members) in the order of
  their creation. It is created as \<open>{}\<close> and so inherits the properties of
  \<open>Object.prototype\<close>: for a key that is not yet an own property but names one of those,
  \<open>groups[key]\<close> is truthy, no array is stored, and \<open>groups[key].push(post)\<close> throws a
  \<open>TypeError\<close>.
\<close>

type_synonym groups = "(string \<times> TrendingPost list) list"

datatype js_error = TypeError

definition Object_prototype_names :: "string list" where
  "Object_prototype_names =
     [''constructor'', ''__defineGetter__'', ''__defineSetter__'', ''hasOwnProperty'',
      ''__lookupGetter__'', ''__lookupSetter__'', ''isPrototypeOf'', ''propertyIsEnumerable'',
      ''toString'', ''valueOf'', ''__proto__'', ''toLocaleString'']"

fun push_to_group :: "string \<Rightarrow> TrendingPost \<Rightarrow> groups \<Rightarrow> groups" where
  "push_to_group key post [] = [(key, [post])]"
| "push_to_group key post ((k, members) # rest) =
     (if k = key then (k, members @ [post]) # rest
      else (k, members) # push_to_group key post rest)"

text \<open>The \<open>forEach\<close> that assigns every post to the group of its key.\<close>

fun assign_groups ::
  "(string \<Rightarrow> string list) \<Rightarrow> groups \<Rightarrow> TrendingPost list \<Rightarrow> js_error + groups" where
  "assign_groups extractKeywords groups [] = Inr groups"
| "assign_groups extractKeywords groups (post # posts) =
     (let key = group_key extractKeywords post in
        if key \<notin> fst ` set groups \<and> key \<in> set Object_prototype_names then Inl TypeError
        else assign_groups extractKeywords (push_to_group key post groups) posts)"

text \<open>
  \<open>Object.entries\<close> lists the own properties whose key is an array index (the canonical
  decimal numeral of an integer from 0 to \<open>2^32 - 2\<close>) first, in ascending numeric order,
  and then the other properties in the order of their creation.
\<close>

definition is_digit :: "char \<Rightarrow> bool" where
  "is_digit c = (let n = (of_char c :: int) in 48 \<le> n \<and> n \<le> 57)"

definition digits_value :: "string \<Rightarrow> int" where
  "digits_value s = foldl (\<lambda>n c. 10 * n + (of_char c - 48)) 0 s"

definition is_array_index :: "string \<Rightarrow> bool" where
  "is_array_index s \<longleftrightarrow>
     s \<noteq> [] \<and> list_all is_digit s \<and> (s = ''0'' \<or> hd s \<noteq> CHR ''0'') \<and>
     digits_value s \<le> 4294967294"

definition Object_entries :: "(string \<times> 'a) list \<Rightarrow> (string \<times> 'a) list" where
  "Object_entries obj =
     sort_key (\<lambda>(k, v). digits_value k) (filter (\<lambda>(k, v). is_array_index k) obj) @
     filter (\<lambda>(k, v). \<not> is_array_index k) obj"

text \<open>
  \<open>TrendingAnalysisService.groupPostsByTrends\<close>. The result is the object
  \<open>filteredGroups\<close>, as the list of its properties in the order of their creation.
\<close>

definition groupPostsByTrends ::
  "(string \<Rightarrow> string list) \<Rightarrow> TrendingPost list \<Rightarrow> js_error + groups" where
  "groupPostsByTrends extractKeywords posts =
     (case assign_groups extractKeywords [] posts of
        Inl e \<Rightarrow> Inl e
      | Inr groups \<Rightarrow>
          let filteredGroups =
                filter (\<lambda>(key, members). length members \<ge> 2) (Object_entries groups)
          in if length filteredGroups = 0
             then
               let sortedGroups =
                     sort_key (\<lambda>(key, members). - int (length members)) (Object_entries groups)
               in Inr (take 5 sortedGroups)
             else Inr filteredGroups)"

section \<open>RateBudgetTracker: the rate limiter of the Reddit provider\<close>

definition MAX_REQUESTS_PER_MINUTE :: nat where
  "MAX_REQUESTS_PER_MINUTE = 100"

definition MAX_REQUESTS_PER_10_MIN :: nat where
  "MAX_REQUESTS_PER_10_MIN = 996"

text \<open>
  The static state of \<open>RedditProvider\<close>: the timestamps of the recent requests and the
  time of the last one, in milliseconds.
\<close>

record limiter =
  requestTimestamps :: "int list"
  lastRequestTime :: int

definition initial_limiter :: limiter where
  "initial_limiter = \<lparr> requestTimestamps = [], lastRequestTime = 0 \<rparr>"

text \<open>
  \<open>await new Promise(resolve => setTimeout(resolve, ms))\<close> takes \<open>ms\<close> milliseconds of
  the clock, and none when \<open>ms\<close> is not positive.
\<close>

definition sleep :: "int \<Rightarrow> int" where
  "sleep ms = max 0 ms"

text \<open>
  \<open>RedditProvider.checkRateLimit\<close>. \<open>now\<close> is the reading of \<open>Date.now()\<close> at the
  start of the call. The three waits follow one another, each computed from that first
  reading. The timestamp pushed at the end is the reading of the clock after the waits:
  \<open>now\<close> plus the waits plus \<open>late\<close>, the time by which the timers fire late
  (0 on an exact simulated clock); \<open>lag\<close> is the time between the last two readings of
  the clock.
\<close>

definition checkRateLimit :: "int \<Rightarrow> nat \<Rightarrow> nat \<Rightarrow> limiter \<Rightarrow> limiter" where
  "checkRateLimit now late lag s =
     (let timestamps =
            filter (\<lambda>timestamp. now - timestamp < 10 * 60 * 1000) (requestTimestamps s);
          recentRequests = length (filter (\<lambda>timestamp. now - timestamp < 60 * 1000) timestamps);
          wait_minute =
            (if recentRequests \<ge> MAX_REQUESTS_PER_MINUTE
             then sleep (60000 -
                    (now - timestamps ! (length timestamps - MAX_REQUESTS_PER_MINUTE)))
             else 0);
          wait_10_min =
            (if length timestamps \<ge> MAX_REQUESTS_PER_10_MIN
             then sleep (10 * 60 * 1000 - (now - timestamps ! 0))
             else 0);
          wait_gap =
            (if now - lastRequestTime s < 600 then sleep (600 - (now - lastRequestTime s))
             else 0);
          pushed = now + wait_minute + wait_10_min + wait_gap + int late
      in \<lparr> requestTimestamps = timestamps @ [pushed], lastRequestTime = pushed + int lag \<rparr>)"

text \<open>
  A run of the limiter on a simulated clock. Each call of \<open>checkRateLimit\<close> is driven by
  three numbers: \<open>idle\<close>, the time between the end of the previous call and the start
  of this one, and \<open>late\<close> and \<open>lag\<close> as above. The calls follow one another (the
  provider processes its subreddits and pages sequentially). The result is the list of
  the recorded timestamps of the allowed requests, in order.
\<close>

fun simulate :: "int \<Rightarrow> limiter \<Rightarrow> (nat \<times> nat \<times> nat) list \<Rightarrow> int list" where
  "simulate clock s [] = []"
| "simulate clock s ((idle, late, lag) # ticks) =
     (let s' = checkRateLimit (clock + int idle) late lag s in
        last (requestTimestamps s') # simulate (lastRequestTime s') s' ticks)"

section \<open>SourceFetcher: the paginated fetch of the Reddit provider\<close>

definition MAX_ITEMS_PER_SUBREDDIT :: int where
  "MAX_ITEMS_PER_SUBREDDIT = 1000"

definition ITEMS_PER_REQUEST :: int where
  "ITEMS_PER_REQUEST = 100"

text \<open>
  What a page request comes back with: a response that is not \<open>ok\<close>, with its status;
  an \<open>ok\<close> response, with the \<open>children\<close> and the \<open>after\<close> cursor of its body; or
  an exception (\<open>fetch\<close> rejects, or the body is not the expected JSON).
\<close>

datatype response =
    HttpError nat
  | HttpOk "RedditPost list" "string option"
  | Rejected

text \<open>
  The variables of the loop in \<open>fetchMaxViralPosts\<close>, and two logs: the requests sent
  (page index and cursor) and the backoff delays slept, in milliseconds.
\<close>

record fetch_state =
  page :: nat
  after :: "string option"
  allPosts :: "TrendingPost list"
  requested :: "(nat \<times> string option) list"
  backoffs :: "int list"

definition initial_fetch_state :: fetch_state where
  "initial_fetch_state =
     \<lparr> page = 0, after = None, allPosts = [], requested = [], backoffs = [] \<rparr>"

text \<open>\<open>Math.min(1000 * Math.pow(2, page), 30000)\<close>.\<close>

definition backoffTime :: "nat \<Rightarrow> int" where
  "backoffTime page_index = min (1000 * 2 ^ page_index) 30000"

text \<open>
  One iteration of the loop after the request has been sent. \<open>reply\<close> is the reading of
  the clock when the posts of the page are normalised, and the response. On status 429
  the loop sleeps for the backoff time, decrements \<open>page\<close> and continues, and the
  increment of the \<open>for\<close> statement restores \<open>page\<close>: the same page is requested
  again, with the same cursor. Any other error status, an empty page and a missing cursor
  end the loop.
\<close>

datatype step = Continue fetch_state | Break fetch_state | Throw

definition page_step :: "int \<times> response \<Rightarrow> fetch_state \<Rightarrow> step" where
  "page_step reply s =
     (case snd reply of
        Rejected \<Rightarrow> Throw
      | HttpError status \<Rightarrow>
          if status = 429
          then Continue (s\<lparr>backoffs := backoffs s @ [backoffTime (page s)]\<rparr>)
          else Break s
      | HttpOk children next \<Rightarrow>
          if children = [] then Break s
          else
            let s' = s\<lparr>allPosts := allPosts s @ transformRedditData (fst reply) children,
                       after := (case next of
                                   None \<Rightarrow> None
                                 | Some a \<Rightarrow> if a = [] then None else Some a)\<rparr>
            in if after s' = None then Break s' else Continue (s'\<lparr>page := page s' + 1\<rparr>))"

text \<open>
  The loop. \<open>world n\<close> is the reply to the \<open>n\<close>-th request of the run. The loop need
  not end: the result \<open>None\<close> stands for a run that never returns, \<open>Some (Inl e)\<close> for
  an exception, \<open>Some (Inr s)\<close> for the state in which the loop ends. (The wait of
  \<open>checkRateLimit\<close> before each request only delays the request.)
\<close>

datatype fetch_error = FetchFailed

partial_function (option) fetch_pages ::
  "(nat \<Rightarrow> int \<times> response) \<Rightarrow> int \<Rightarrow> fetch_state \<Rightarrow> (fetch_error + fetch_state) option" where
  "fetch_pages world pagesNeeded s =
     (if int (page s) < pagesNeeded
      then
        (case page_step (world (length (requested s)))
                (s\<lparr>requested := requested s @ [(page s, after s)]\<rparr>) of
           Continue s' \<Rightarrow> fetch_pages world pagesNeeded s'
         | Break s' \<Rightarrow> Some (Inr s')
         | Throw \<Rightarrow> Some (Inl FetchFailed))
      else Some (Inr s))"

declare fetch_pages.simps [code]

text \<open>
  \<open>RedditProvider.fetchMaxViralPosts\<close>: the posts collected by the loop, sorted by
  descending engagement score (the sort is stable). The subreddit and the timeframe
  only enter the URL of the requests.
\<close>

definition fetchMaxViralPosts ::
  "(nat \<Rightarrow> int \<times> response) \<Rightarrow> int \<Rightarrow> (fetch_error + TrendingPost list) option" where
  "fetchMaxViralPosts world maxItems =
     (let targetItems = min maxItems MAX_ITEMS_PER_SUBREDDIT;
          pagesNeeded = \<lceil>(of_int targetItems :: rat) / of_int ITEMS_PER_REQUEST\<rceil>
      in case fetch_pages world pagesNeeded initial_fetch_state of
           None \<Rightarrow> None
         | Some (Inl e) \<Rightarrow> Some (Inl e)
         | Some (Inr s) \<Rightarrow> Some (Inr (sort_key (\<lambda>p. - engagement_score p) (allPosts s))))"

text \<open>
  \<open>RedditProvider.fetchMultiViralContent\<close>: the subreddits are fetched one after the
  other; a fetch that throws is skipped, a fetch that never returns blocks the whole
  call. The posts collected are deduplicated and sorted by descending engagement score.
  \<open>worlds i\<close> is the server as the fetch of the \<open>i\<close>-th subreddit finds it.
\<close>

fun collect_subreddits ::
  "(nat \<Rightarrow> nat \<Rightarrow> int \<times> response) \<Rightarrow> int \<Rightarrow> nat \<Rightarrow> TrendingPost list \<Rightarrow> string list \<Rightarrow>
   TrendingPost list option" where
  "collect_subreddits worlds maxPostsPerSubreddit i collected [] = Some collected"
| "collect_subreddits worlds maxPostsPerSubreddit i collected (name # rest) =
     (case fetchMaxViralPosts (worlds i) maxPostsPerSubreddit of
        None \<Rightarrow> None
      | Some (Inl e) \<Rightarrow> collect_subreddits worlds maxPostsPerSubreddit (i + 1) collected rest
      | Some (Inr posts) \<Rightarrow>
          collect_subreddits worlds maxPostsPerSubreddit (i + 1) (collected @ posts) rest)"

definition fetchMultiViralContent ::
  "(nat \<Rightarrow> nat \<Rightarrow> int \<times> response) \<Rightarrow> string list \<Rightarrow> int \<Rightarrow> TrendingPost list option" where
  "fetchMultiViralContent worlds subreddits maxPostsPerSubreddit =
     (case collect_subreddits worlds maxPostsPerSubreddit 0 [] subreddits of
        None \<Rightarrow> None
      | Some collected \<Rightarrow>
          Some (sort_key (\<lambda>p. - engagement_score p) (removeDuplicatePosts collected)))"

chapter \<open>Auxiliary definitions\<close>

section \<open>Predicates and invariants used in the statements and proofs\<close>


text \<open>
  What the limiter maintains for a window of \<open>W\<close> milliseconds with ceiling \<open>n\<close>: when
  a request is recorded, fewer than \<open>n\<close> of the requests recorded before it are less
  than \<open>W\<close> older.
\<close>

definition paced :: "nat \<Rightarrow> int \<Rightarrow> int list \<Rightarrow> bool" where
  "paced n W history \<longleftrightarrow>
     (\<forall>i < length history.
        length (filter (\<lambda>u. history ! i - u < W) (take i history)) < n)"

text \<open>
  The invariant of a run at clock reading \<open>clock\<close>, for the limiter state \<open>s\<close> and
  the list \<open>history\<close> of all timestamps recorded so far: the history is in
  non-decreasing order and not ahead of the clock, it is paced for both windows, and
  the stored timestamps are the history but for a prefix of timestamps that are at
  least ten minutes old.
\<close>

definition limiter_inv :: "int \<Rightarrow> limiter \<Rightarrow> int list \<Rightarrow> bool" where
  "limiter_inv clock s history \<longleftrightarrow>
     sorted history \<and> (\<forall>t \<in> set history. t \<le> clock) \<and>
     paced MAX_REQUESTS_PER_MINUTE 60000 history \<and>
     paced MAX_REQUESTS_PER_10_MIN 600000 history \<and>
     (\<exists>old. history = old @ requestTimestamps s \<and> (\<forall>t \<in> set old. t + 600000 \<le> clock))"

section \<open>Example inputs\<close>

text \<open>
  Concrete posts and tweets on which the theorems of the second part are instantiated.
\<close>

definition example_post :: RedditPost where
  "example_post =
     \<lparr> reddit_id = ''a1'', title = ''Rust 2.0 released'', selftext = '''', author = ''alice'',
       subreddit = ''programming'', score = 100, upvote_ratio = 7 / 10, num_comments = 10,
       created_utc = 1000, over_18 = False, stickied = False \<rparr>"

definition example_metrics :: PublicMetrics where
  "example_metrics =
     \<lparr> like_count = Some 10, retweet_count = Some 2, reply_count = None, quote_count = Some 1,
       bookmark_count = None, impression_count = Some 1499 \<rparr>"

definition example_tweet :: Tweet where
  "example_tweet =
     \<lparr> tweet_id = ''17'', tweet_text = Some ''Great new #AI app'', author_id = ''u1'',
       public_metrics = Some example_metrics, context_annotations = [],
       created_at = Some 360000000 \<rparr>"

definition example_users :: "TwitterUser list" where
  "example_users = [\<lparr> user_id = ''u1'', username = Some ''bob'' \<rparr>]"

text \<open>
  The normalised forms of \<open>example_tweet\<close> (at any clock reading) and of
  \<open>example_post\<close> (at clock reading 1000000), written out; that they are is proved
  in the second part.
\<close>

definition example_normalised_tweet :: TrendingPost where
  "example_normalised_tweet =
     \<lparr> post_id = ''17'', platform = ''twitter'', platform_post_id = ''17'',
       author_username = ''bob'', content = ''Great new #AI app'', hashtags = [''#ai''],
       engagement_score = 20, likes = 10, shares = 2, comments = 0, views = 1499,
       published_at = 360000000, trend_category = Some ''Technology'',
       sentiment = Some ''positive'' \<rparr>"

definition example_normalised_post :: TrendingPost where
  "example_normalised_post =
     \<lparr> post_id = ''reddit_a1'', platform = ''reddit'', platform_post_id = ''programming_a1'',
       author_username = ''alice'', content = ''Rust 2.0 released'',
       hashtags = [''#programming''], engagement_score = 200, likes = 100, shares = 10,
       comments = 10, views = 0, published_at = 1000000, trend_category = Some ''Technology'',
       sentiment = Some ''neutral'' \<rparr>"

text \<open>Example worlds: a server that always answers 429, and one page of two posts.\<close>

definition always_429 :: "nat \<Rightarrow> int \<times> response" where
  "always_429 n = (0, HttpError 429)"

definition two_posts_world :: "nat \<Rightarrow> int \<times> response" where
  "two_posts_world n =
     (1000000, HttpOk [example_post, example_post\<lparr>reddit_id := ''a2'', score := 60\<rparr>] None)"

definition retry_twice_world :: "nat \<Rightarrow> int \<times> response" where
  "retry_twice_world n = (if n < 2 then (0, HttpError 429) else (0, HttpOk [] None))"

chapter \<open>Properties\<close>

section \<open>Normalisation and scoring\<close>

lemma Math_round_mono: "x \<le> y \<Longrightarrow> Math_round x \<le> Math_round y"
  by (simp add: Math_round_def floor_mono)

lemma Math_round_add_int: "Math_round (of_int n + x) = n + Math_round x"
  by (simp add: Math_round_def add.assoc)

lemma Math_round_thousandth: "Math_round (of_int n * (1 / 1000)) = (n + 500) div 1000"
proof -
  have "of_int n * (1 / 1000) + 1 / 2 = (of_int (n + 500) :: rat) / of_int 1000"
    by (simp add: field_simps)
  then show ?thesis
    unfolding Math_round_def by (simp only: floor_divide_of_int_eq)
qed

lemma Twitter_score_closed_form:
  "Twitter_calculateEngagementScore m =
     num_or_0 (like_count m) + 3 * num_or_0 (retweet_count m) + 4 * num_or_0 (reply_count m) +
     3 * num_or_0 (quote_count m) + 2 * num_or_0 (bookmark_count m) +
     (num_or_0 (impression_count m) + 500) div 1000"
proof -
  let ?n = "num_or_0 (like_count m) + 3 * num_or_0 (retweet_count m) +
     4 * num_or_0 (reply_count m) + 3 * num_or_0 (quote_count m) + 2 * num_or_0 (bookmark_count m)"
  have "Twitter_calculateEngagementScore m =
      Math_round (of_int ?n + of_int (num_or_0 (impression_count m)) * (1 / 1000))"
    unfolding Twitter_calculateEngagementScore_def Let_def
    by (rule arg_cong [where f = Math_round]) simp
  also have "\<dots> = ?n + (num_or_0 (impression_count m) + 500) div 1000"
    by (simp only: Math_round_add_int Math_round_thousandth)
  finally show ?thesis .
qed


lemma Twitter_score_mono:
  assumes "num_or_0 (like_count a) \<le> num_or_0 (like_count b)"
    and "num_or_0 (retweet_count a) \<le> num_or_0 (retweet_count b)"
    and "num_or_0 (reply_count a) \<le> num_or_0 (reply_count b)"
    and "num_or_0 (quote_count a) \<le> num_or_0 (quote_count b)"
    and "num_or_0 (bookmark_count a) \<le> num_or_0 (bookmark_count b)"
    and "num_or_0 (impression_count a) \<le> num_or_0 (impression_count b)"
  shows "Twitter_calculateEngagementScore a \<le> Twitter_calculateEngagementScore b"
proof -
  have "(num_or_0 (impression_count a) + 500) div 1000 \<le> (num_or_0 (impression_count b) + 500) div 1000"
    using assms(6) by (intro zdiv_mono1) simp_all
  with assms(1-5) show ?thesis
    unfolding Twitter_score_closed_form by linarith
qed

lemma weighted_round_mono:
  fixes r k :: rat
  assumes "0 \<le> r" and "s \<le> s'" and "c \<le> c'"
  shows "Math_round (of_int s * r + of_int c * 3 + (if b then of_int s * (1 / 2) else 0) + k) \<le>
         Math_round (of_int s' * r + of_int c' * 3 + (if b then of_int s' * (1 / 2) else 0) + k)"
proof (rule Math_round_mono)
  have 1: "of_int s * r \<le> of_int s' * r"
    using assms(1,2) by (intro mult_right_mono) simp_all
  have 2: "(of_int c :: rat) * 3 \<le> of_int c' * 3"
    using assms(3) by simp
  have 3: "(if b then of_int s * (1 / 2) else (0::rat)) \<le> (if b then of_int s' * (1 / 2) else 0)"
    using assms(2) by simp
  show "of_int s * r + of_int c * 3 + (if b then of_int s * (1 / 2) else 0) + k \<le>
        of_int s' * r + of_int c' * 3 + (if b then of_int s' * (1 / 2) else 0) + k"
    using 1 2 3 by (intro add_mono order_refl)
qed

lemma Reddit_score_mono:
  assumes r: "0 \<le> upvote_ratio p" and s: "score p \<le> s'" and c: "num_comments p \<le> c'"
  shows "Reddit_calculateEngagementScore now p \<le>
         Reddit_calculateEngagementScore now (p\<lparr>score := s', num_comments := c'\<rparr>)"
proof -
  let ?q = "p\<lparr>score := s', num_comments := c'\<rparr>"
  have sel: "score ?q = s'" "num_comments ?q = c'" "upvote_ratio ?q = upvote_ratio p"
    "created_utc ?q = created_utc p"
    by simp_all
  have r': "0 \<le> (if upvote_ratio p = 0 then 1 / 2 else upvote_ratio p)"
    using r by simp
  show ?thesis
    unfolding Reddit_calculateEngagementScore_def Let_def sel
    by (rule weighted_round_mono [OF r' s c])
qed

text \<open>
  C10. For every Reddit post and every clock reading, the normalised post has
  \<open>shares\<close> equal to \<open>comments\<close>, and both equal to the source's \<open>num_comments\<close>.
\<close>

theorem reddit_shares_equal_comments:
  "shares (transformPost now post) = comments (transformPost now post) \<and>
   shares (transformPost now post) = num_comments post \<and>
   comments (transformPost now post) = num_comments post"
  by (simp add: transformPost_def)




text \<open>
  C4. Raising engagement counters never lowers the score. For tweets: if every counter
  of the second tweet is at least the counter of the first (in particular when exactly
  one is strictly greater and the others are equal), the second score is at least the
  first. For Reddit posts, whose counters are the Reddit score and the number of
  comments: the same, for every post with a non-negative upvote ratio (the quality
  filter only lets posts with a ratio above 0.6 through).
\<close>

theorem engagement_score_monotone:
  "(num_or_0 (like_count a) \<le> num_or_0 (like_count b) \<and>
    num_or_0 (retweet_count a) \<le> num_or_0 (retweet_count b) \<and>
    num_or_0 (reply_count a) \<le> num_or_0 (reply_count b) \<and>
    num_or_0 (quote_count a) \<le> num_or_0 (quote_count b) \<and>
    num_or_0 (bookmark_count a) \<le> num_or_0 (bookmark_count b) \<and>
    num_or_0 (impression_count a) \<le> num_or_0 (impression_count b) \<longrightarrow>
    engagement_score (transformTweet now users (tweet\<lparr>public_metrics := Some a\<rparr>)) \<le>
    engagement_score (transformTweet now users (tweet\<lparr>public_metrics := Some b\<rparr>))) \<and>
   (0 \<le> upvote_ratio post \<and> score post \<le> s' \<and> num_comments post \<le> c' \<longrightarrow>
    engagement_score (transformPost now post) \<le>
    engagement_score (transformPost now (post\<lparr>score := s', num_comments := c'\<rparr>)))"
proof (intro conjI impI)
  assume "num_or_0 (like_count a) \<le> num_or_0 (like_count b) \<and>
    num_or_0 (retweet_count a) \<le> num_or_0 (retweet_count b) \<and>
    num_or_0 (reply_count a) \<le> num_or_0 (reply_count b) \<and>
    num_or_0 (quote_count a) \<le> num_or_0 (quote_count b) \<and>
    num_or_0 (bookmark_count a) \<le> num_or_0 (bookmark_count b) \<and>
    num_or_0 (impression_count a) \<le> num_or_0 (impression_count b)"
  then have "Twitter_calculateEngagementScore a \<le> Twitter_calculateEngagementScore b"
    by (intro Twitter_score_mono) simp_all
  then show "engagement_score (transformTweet now users (tweet\<lparr>public_metrics := Some a\<rparr>)) \<le>
    engagement_score (transformTweet now users (tweet\<lparr>public_metrics := Some b\<rparr>))"
    by (simp add: transformTweet_def Let_def metrics_of_def)
next
  assume "0 \<le> upvote_ratio post \<and> score post \<le> s' \<and> num_comments post \<le> c'"
  then have "Reddit_calculateEngagementScore now post \<le>
      Reddit_calculateEngagementScore now (post\<lparr>score := s', num_comments := c'\<rparr>)"
    by (intro Reddit_score_mono) simp_all
  then show "engagement_score (transformPost now post) \<le>
    engagement_score (transformPost now (post\<lparr>score := s', num_comments := c'\<rparr>))"
    by (simp add: transformPost_def)
qed

theorem engagement_score_monotone_witness:
  "engagement_score (transformTweet 0 example_users example_tweet) \<le>
     engagement_score (transformTweet 0 example_users
       (example_tweet\<lparr>public_metrics := Some (example_metrics\<lparr>reply_count := Some 1\<rparr>)\<rparr>)) \<and>
   engagement_score (transformPost 1000000 example_post) \<le>
     engagement_score (transformPost 1000000 (example_post\<lparr>score := 101, num_comments := 10\<rparr>))"
  using engagement_score_monotone [where a = example_metrics
      and b = "example_metrics\<lparr>reply_count := Some 1\<rparr>" and now = 0 and users = example_users
      and tweet = example_tweet]
    engagement_score_monotone [where post = example_post and s' = 101 and c' = 10
      and now = 1000000]
  by (simp add: example_post_def example_tweet_def example_metrics_def num_or_0_def)

text \<open>
  The single-shot fetch keeps at most the 100 best tweets, best first, all of positive score.
\<close>

lemma transformTwitterData_bounded:
  "length (transformTwitterData now data users) \<le> 100 \<and>
   sorted (map (\<lambda>p. - engagement_score p) (transformTwitterData now data users)) \<and>
   (\<forall>p \<in> set (transformTwitterData now data users). 0 < engagement_score p)"
proof (cases data)
  case None
  then show ?thesis by (simp add: transformTwitterData_def)
next
  case (Some tweets)
  define kept where "kept = filter (\<lambda>post. content post \<noteq> [] \<and> length (content post) > 5 \<and>
      author_username post \<noteq> ''unknown'' \<and> engagement_score post > 0)
    (map (transformTweet now users) tweets)"
  define ranked where "ranked = sort_key (\<lambda>p. - engagement_score p) kept"
  have r: "transformTwitterData now data users = take 100 ranked"
    using Some by (simp add: transformTwitterData_def ranked_def kept_def)
  have "sorted (map (\<lambda>p. - engagement_score p) ranked)"
    unfolding ranked_def by (rule sorted_sort_key)
  then have s: "sorted (map (\<lambda>p. - engagement_score p) (take 100 ranked))"
    by (simp only: take_map [symmetric] sorted_wrt_take)
  have k: "\<forall>p \<in> set kept. 0 < engagement_score p"
    unfolding kept_def by simp
  have "set (take 100 ranked) \<subseteq> set ranked"
    by (rule set_take_subset)
  also have "set ranked = set kept"
    unfolding ranked_def by simp
  finally have p: "\<forall>p \<in> set (take 100 ranked). 0 < engagement_score p"
    using k by blast
  have l: "length (take 100 ranked) \<le> 100"
    by simp
  show ?thesis
    unfolding r using l s p by (intro conjI)
qed

text \<open>The example normalised posts are what the normalisers produce from the example inputs.\<close>

lemma example_normalised_tweet_eq:
  "transformTweet now example_users example_tweet = example_normalised_tweet"
proof -
  have cat: "determineTrendCategory ''Great new #AI app'' [''#ai''] [] = ''Technology''"
    by (simp add: determineTrendCategory_def first_category_def trend_categories_def
        toLowerCase_def toLowerCase_char_def)
  have sent: "Twitter_analyzeSentiment ''Great new #AI app'' = ''positive''"
    by (simp add: Twitter_analyzeSentiment_def toLowerCase_def toLowerCase_char_def)
  have tags: "extractHashtags ''Great new #AI app'' = [''#ai'']"
    by (simp add: extractHashtags_def is_word_char_def toLowerCase_def toLowerCase_char_def)
  show ?thesis
    by (simp add: transformTweet_def example_tweet_def example_users_def example_metrics_def
        example_normalised_tweet_def usersMap_def metrics_of_def num_or_0_def opt_or_def
        str_or_def Twitter_score_closed_form cat sent tags Let_def)
qed

lemma example_normalised_post_eq:
  "transformPost 1000000 example_post = example_normalised_post"
proof -
  have cat: "categorizeRedditPost example_post = ''Technology''"
    by (simp add: categorizeRedditPost_def example_post_def some_term_def
        toLowerCase_def toLowerCase_char_def)
  have sent: "Reddit_analyzeSentiment ''Rust 2.0 released'' = ''neutral''"
    by (simp add: Reddit_analyzeSentiment_def toLowerCase_def toLowerCase_char_def)
  have score: "Reddit_calculateEngagementScore 1000000 example_post = 200"
    by (simp add: Reddit_calculateEngagementScore_def example_post_def
        calculateRecencyBonus_def Math_round_def floor_eq_iff)
  have fields: "title example_post = ''Rust 2.0 released''" "selftext example_post = []"
    "subreddit example_post = ''programming''" "reddit_id example_post = ''a1''"
    "author example_post = ''alice''" "score example_post = 100"
    "num_comments example_post = 10" "created_utc example_post = 1000"
    by (simp_all add: example_post_def)
  show ?thesis
    by (simp add: transformPost_def example_normalised_post_def cat sent score fields
        toLowerCase_def toLowerCase_char_def is_word_char_def Date_of_def)
qed

section \<open>Deduplication\<close>






section \<open>Sentiment distribution\<close>











section \<open>The discovery gate\<close>



text \<open>
  A store in which the database refuses every row leaves the table as it was.
\<close>

lemma storeTrendingPosts_all_refused:
  "storeTrendingPosts (\<lambda>i post. None) posts table = table"
proof -
  have "foldl (\<lambda>rows (i, post). case (None :: int option) of
                  Some stamp \<Rightarrow> upsert_row (platform_post_id post) stamp rows
                | None \<Rightarrow> rows) table pairs = table" for pairs :: "(nat \<times> TrendingPost) list"
    by (induction pairs) (simp_all add: case_prod_beta)
  then show ?thesis
    by (simp add: storeTrendingPosts_def)
qed




section \<open>Clustering\<close>

lemma assign_groups_safe:
  assumes "\<forall>post \<in> set posts. group_key kw post \<notin> set Object_prototype_names"
  shows "assign_groups kw groups posts =
           Inr (foldl (\<lambda>g p. push_to_group (group_key kw p) p g) groups posts)"
  using assms by (induction posts arbitrary: groups) (simp_all add: Let_def)

lemma map_of_push_to_group:
  "map_of (push_to_group key post groups) k =
     (if k = key
      then Some ((case map_of groups key of None \<Rightarrow> [] | Some members \<Rightarrow> members) @ [post])
      else map_of groups k)"
  by (induction key post groups rule: push_to_group.induct) auto

lemma keys_push_to_group:
  "fst ` set (push_to_group key post groups) = insert key (fst ` set groups)"
  by (induction key post groups rule: push_to_group.induct) auto

lemma distinct_push_to_group:
  "distinct (map fst groups) \<Longrightarrow> distinct (map fst (push_to_group key post groups))"
proof (induction key post groups rule: push_to_group.induct)
  case (1 key post)
  show ?case by simp
next
  case (2 key post k members rest)
  show ?case
  proof (cases "k = key")
    case True
    with 2 show ?thesis by simp
  next
    case False
    have "k \<notin> fst ` set (push_to_group key post rest)"
      using 2(2) False unfolding keys_push_to_group by auto
    with 2 False show ?thesis by simp
  qed
qed

lemma map_of_foldl_push:
  "map_of (foldl (\<lambda>g p. push_to_group (f p) p g) groups posts) k =
     (case map_of groups k of
        Some members \<Rightarrow> Some (members @ filter (\<lambda>p. f p = k) posts)
      | None \<Rightarrow>
          if filter (\<lambda>p. f p = k) posts = [] then None
          else Some (filter (\<lambda>p. f p = k) posts))"
proof (induction posts arbitrary: groups)
  case Nil
  show ?case by (simp split: option.splits)
next
  case (Cons post posts)
  show ?case
    by (simp add: Cons.IH map_of_push_to_group split: option.splits)
qed

lemma distinct_foldl_push:
  "distinct (map fst groups) \<Longrightarrow>
   distinct (map fst (foldl (\<lambda>g p. push_to_group (f p) p g) groups posts))"
  by (induction posts arbitrary: groups) (simp_all add: distinct_push_to_group)

lemma mset_Object_entries: "mset (Object_entries obj) = mset obj"
proof -
  have "filter (\<lambda>(k, v). \<not> is_array_index k) obj = filter (\<lambda>x. \<not> (case x of (k, v) \<Rightarrow> is_array_index k)) obj"
    by (rule filter_cong) auto
  then show ?thesis
    by (simp add: Object_entries_def)
qed

lemma set_Object_entries: "set (Object_entries obj) = set obj"
  using mset_Object_entries [of obj] by (metis set_mset_mset)

lemma length_Object_entries: "length (Object_entries obj) = length obj"
  using mset_Object_entries [of obj] by (metis size_mset)

lemma distinct_keys_perm:
  assumes "mset xs = mset ys" and "distinct (map fst ys)"
  shows "distinct (map fst xs)"
proof -
  have "mset (map fst xs) = mset (map fst ys)"
    using assms(1) by (metis mset_map)
  then show ?thesis
    using assms(2) by (metis mset_eq_imp_distinct_iff)
qed

lemma distinct_keys_take: "distinct (map fst xs) \<Longrightarrow> distinct (map fst (take n xs))"
  by (simp add: take_map [symmetric] distinct_take)

lemma distinct_keys_filter: "distinct (map fst xs) \<Longrightarrow> distinct (map fst (filter P xs))"
  by (rule distinct_map_filter)

text \<open>The groups after the assignment: one for every key that occurs, with all its posts.\<close>

lemma grouped_distinct:
  "distinct (map fst (foldl (\<lambda>g p. push_to_group (f p) p g) [] posts))"
  by (rule distinct_foldl_push) simp

lemma grouped_members:
  "(k, members) \<in> set (foldl (\<lambda>g p. push_to_group (f p) p g) [] posts) \<longleftrightarrow>
     members = filter (\<lambda>p. f p = k) posts \<and> members \<noteq> []"
proof -
  let ?groups = "foldl (\<lambda>g p. push_to_group (f p) p g) [] posts"
  have "map_of ?groups k =
      (if filter (\<lambda>p. f p = k) posts = [] then None else Some (filter (\<lambda>p. f p = k) posts))"
    by (simp add: map_of_foldl_push)
  moreover have "map_of ?groups k = Some members \<longleftrightarrow> (k, members) \<in> set ?groups"
    by (rule map_of_eq_Some_iff [OF grouped_distinct])
  ultimately show ?thesis
    by (auto split: if_splits)
qed

lemma grouped_keys:
  "fst ` set (foldl (\<lambda>g p. push_to_group (f p) p g) [] posts) = f ` set posts"
proof -
  have "fst ` set (foldl (\<lambda>g p. push_to_group (f p) p g) groups posts) =
      fst ` set groups \<union> f ` set posts" for groups
    by (induction posts arbitrary: groups) (auto simp: keys_push_to_group)
  from this [of "[]"] show ?thesis by simp
qed

lemma grouped_length:
  "length (foldl (\<lambda>g p. push_to_group (f p) p g) [] posts) = card (f ` set posts)"
proof -
  let ?groups = "foldl (\<lambda>g p. push_to_group (f p) p g) [] posts"
  have "distinct (map fst ?groups)"
    by (rule distinct_foldl_push) simp
  then have "card (set (map fst ?groups)) = length (map fst ?groups)"
    by (rule distinct_card)
  then show ?thesis
    by (simp add: grouped_keys)
qed
text \<open>
  The posts that the two normalisers produce never have a key that names a property
  of \<open>Object.prototype\<close>: the key of a Reddit post is its category, the key of a tweet
  is its first hashtag or, without hashtags, its category.
\<close>

lemma categorizeRedditPost_names:
  "categorizeRedditPost post \<in>
     {''Technology'', ''Entertainment'', ''Sports'', ''News & Politics'', ''Business'',
      ''Lifestyle'', ''Social Media'', ''General''}"
  by (simp add: categorizeRedditPost_def Let_def)

lemma group_key_transformPost:
  "group_key kw (transformPost now post) = categorizeRedditPost post"
  using categorizeRedditPost_names [of post]
  by (auto simp: group_key_def groupKeys_def transformPost_def Let_def opt_or_def str_or_def)

lemma match_hashtags_hash: "h \<in> set (match_hashtags s) \<Longrightarrow> \<exists>r. h = CHR ''#'' # r"
  by (induction s rule: match_hashtags.induct) (auto split: if_splits)

lemma extractHashtags_hash: "h \<in> set (extractHashtags s) \<Longrightarrow> \<exists>r. h = CHR ''#'' # r"
proof -
  assume "h \<in> set (extractHashtags s)"
  then obtain g where g: "g \<in> set (match_hashtags s)" and h: "h = toLowerCase g"
    by (auto simp: extractHashtags_def)
  from match_hashtags_hash [OF g] obtain r where "g = CHR ''#'' # r" ..
  with h have "h = CHR ''#'' # toLowerCase r"
    by (simp add: toLowerCase_def toLowerCase_char_def)
  then show ?thesis ..
qed

lemma first_category_names:
  "first_category hit = Some c \<Longrightarrow>
   c \<in> {''Technology'', ''Entertainment'', ''Sports'', ''Business'', ''Lifestyle'',
        ''News & Politics'', ''Social Media''}"
proof -
  assume "first_category hit = Some c"
  then obtain x where "find (\<lambda>(category, tags, keywords, contexts). hit tags keywords contexts)
      trend_categories = Some x" and c: "c = fst x"
    by (auto simp: first_category_def)
  then have "x \<in> set trend_categories"
    by (metis find_Some_iff nth_mem)
  then have "fst x \<in> fst ` set trend_categories" by (rule imageI)
  then show ?thesis
    unfolding c by (simp add: trend_categories_def)
qed

lemma determineTrendCategory_names:
  "determineTrendCategory text tags annotations \<in>
     {''Technology'', ''Entertainment'', ''Sports'', ''Business'', ''Lifestyle'',
      ''News & Politics'', ''Social Media'', ''General''}"
  unfolding determineTrendCategory_def Let_def
  by (auto split: option.splits dest!: first_category_names)

lemma group_key_transformTweet:
  "(\<exists>r. group_key kw (transformTweet now users tweet) = CHR ''#'' # r) \<or>
   group_key kw (transformTweet now users tweet) \<in>
     {''Technology'', ''Entertainment'', ''Sports'', ''Business'', ''Lifestyle'',
      ''News & Politics'', ''Social Media'', ''General''}"
proof -
  let ?text = "opt_or (tweet_text tweet) ''''"
  let ?tags = "extractHashtags ?text"
  let ?cat = "determineTrendCategory ?text ?tags (context_annotations tweet)"
  have cat: "?cat \<in> {''Technology'', ''Entertainment'', ''Sports'', ''Business'', ''Lifestyle'',
      ''News & Politics'', ''Social Media'', ''General''}"
    by (rule determineTrendCategory_names)
  then have oc: "opt_or (Some ?cat) d = ?cat" for d
    by (auto simp: opt_or_def str_or_def)
  have fields: "platform (transformTweet now users tweet) = ''twitter''"
    "hashtags (transformTweet now users tweet) = ?tags"
    "trend_category (transformTweet now users tweet) = Some ?cat"
    by (simp_all add: transformTweet_def Let_def)
  have key: "group_key kw (transformTweet now users tweet) =
      (case find (\<lambda>k. k \<noteq> [] \<and> k \<noteq> ''undefined'') (take 2 ?tags @ [?cat]) of
         Some k \<Rightarrow> k | None \<Rightarrow> ?cat)"
    unfolding group_key_def groupKeys_def fields Let_def oc by simp
  show ?thesis
  proof (cases ?tags)
    case Nil
    with key cat show ?thesis by auto
  next
    case (Cons h rest)
    then have "h \<in> set ?tags" by simp
    from extractHashtags_hash [OF this] obtain r where "h = CHR ''#'' # r" ..
    with key Cons show ?thesis by simp
  qed
qed

lemma normalised_posts_have_safe_keys:
  "group_key kw (transformPost now post) \<notin> set Object_prototype_names"
  "group_key kw (transformTweet now users tweet) \<notin> set Object_prototype_names"
proof -
  show "group_key kw (transformPost now post) \<notin> set Object_prototype_names"
    using categorizeRedditPost_names [of post]
    by (auto simp: group_key_transformPost Object_prototype_names_def)
  show "group_key kw (transformTweet now users tweet) \<notin> set Object_prototype_names"
    using group_key_transformTweet [of kw now users tweet]
    by (auto simp: Object_prototype_names_def)
qed
lemma filter_group_member:
  "2 \<le> length (filter (\<lambda>q. f q = k) posts) \<Longrightarrow>
   \<exists>p \<in> set posts. 2 \<le> length (filter (\<lambda>q. f q = f p) posts)"
proof -
  assume a: "2 \<le> length (filter (\<lambda>q. f q = k) posts)"
  then have "filter (\<lambda>q. f q = k) posts \<noteq> []" by auto
  then obtain p where "p \<in> set (filter (\<lambda>q. f q = k) posts)"
    by (meson last_in_set)
  then have "p \<in> set posts" "f p = k" by auto
  with a show ?thesis by auto
qed

text \<open>
  C5. Take any list of posts none of whose keys names a property of
  \<open>Object.prototype\<close>, and any keyword extractor. The clusterer returns groups with
  pairwise different keys, and each returned group consists of all the posts of its
  key. If some key has at least 2 posts, the returned groups are exactly the groups of
  the keys with at least 2 posts: every smaller group is dropped. Otherwise (no key has
  2 posts) it returns 5 groups, or all of them when there are fewer than 5, and no group
  at all is larger than a returned one. In both cases the result has at least one group
  when the input is non-empty.
\<close>

theorem groupPostsByTrends_threshold_and_fallback:
  assumes safe: "\<forall>post \<in> set posts. group_key kw post \<notin> set Object_prototype_names"
  shows "\<exists>out. groupPostsByTrends kw posts = Inr out \<and>
           distinct (map fst out) \<and>
           (\<forall>(k, members) \<in> set out.
              members = filter (\<lambda>p. group_key kw p = k) posts \<and> members \<noteq> []) \<and>
           (if \<exists>p \<in> set posts. 2 \<le> length (filter (\<lambda>q. group_key kw q = group_key kw p) posts)
            then fst ` set out = {k. 2 \<le> length (filter (\<lambda>q. group_key kw q = k) posts)}
            else length out = min 5 (card (group_key kw ` set posts)) \<and>
                 (\<forall>(k, members) \<in> set out. \<forall>k'.
                    length (filter (\<lambda>q. group_key kw q = k') posts) \<le> length members)) \<and>
           (posts \<noteq> [] \<longrightarrow> out \<noteq> [])"
proof -
  let ?f = "group_key kw"
  let ?G = "foldl (\<lambda>g p. push_to_group (?f p) p g) [] posts"
  let ?E = "Object_entries ?G"
  let ?F = "filter (\<lambda>(key, members). 2 \<le> length members) ?E"
  let ?S = "sort_key (\<lambda>(key, members). - int (length members)) ?E"
  let ?big = "\<exists>p \<in> set posts. 2 \<le> length (filter (\<lambda>q. ?f q = ?f p) posts)"
  have assign: "assign_groups kw [] posts = Inr ?G"
    by (rule assign_groups_safe [OF safe])
  have E_dist: "distinct (map fst ?E)"
    by (rule distinct_keys_perm [OF mset_Object_entries grouped_distinct])
  have mem: "(k, ms) \<in> set ?E \<longleftrightarrow> ms = filter (\<lambda>p. ?f p = k) posts \<and> ms \<noteq> []" for k ms
    by (simp only: set_Object_entries grouped_members)
  have cond: "?F \<noteq> [] \<longleftrightarrow> ?big"
  proof
    assume "?F \<noteq> []"
    then obtain k ms where "(k, ms) \<in> set ?E" "2 \<le> length ms"
      by (auto simp: filter_empty_conv)
    then have "2 \<le> length (filter (\<lambda>q. ?f q = k) posts)"
      using mem by simp
    then show ?big by (rule filter_group_member)
  next
    assume ?big
    then obtain p where p: "p \<in> set posts" "2 \<le> length (filter (\<lambda>q. ?f q = ?f p) posts)"
      by blast
    then have "filter (\<lambda>q. ?f q = ?f p) posts \<noteq> []" by auto
    then have "(?f p, filter (\<lambda>q. ?f q = ?f p) posts) \<in> set ?E"
      using mem by simp
    with p(2) show "?F \<noteq> []"
      by (auto simp: filter_empty_conv)
  qed
  show ?thesis
  proof (cases "?F = []")
    case True
    let ?out = "take 5 ?S"
    have small: "\<not> ?big" using True cond by simp
    have res: "groupPostsByTrends kw posts = Inr ?out"
      using True by (simp add: groupPostsByTrends_def assign Let_def)
    have S_dist: "distinct (map fst ?S)"
      by (rule distinct_keys_perm [OF _ E_dist]) simp
    have dist: "distinct (map fst ?out)"
      by (rule distinct_keys_take [OF S_dist])
    have sub: "set ?out \<subseteq> set ?E"
      using set_take_subset [of 5 ?S] by simp
    have members: "\<forall>(k, members) \<in> set ?out.
        members = filter (\<lambda>p. ?f p = k) posts \<and> members \<noteq> []"
      using sub mem by auto
    have len: "length ?out = min 5 (card (?f ` set posts))"
      by (simp add: length_Object_entries grouped_length min.commute)
    have le1: "length (filter (\<lambda>q. ?f q = k') posts) \<le> 1" for k'
    proof (rule ccontr)
      assume "\<not> length (filter (\<lambda>q. ?f q = k') posts) \<le> 1"
      then have "2 \<le> length (filter (\<lambda>q. ?f q = k') posts)" by simp
      then have ?big by (rule filter_group_member)
      with small show False by simp
    qed
    have largest: "\<forall>(k, members) \<in> set ?out. \<forall>k'.
        length (filter (\<lambda>q. ?f q = k') posts) \<le> length members"
    proof (clarify)
      fix k members k'
      assume "(k, members) \<in> set ?out"
      with members have "members \<noteq> []" by auto
      then have "1 \<le> length members" by (cases members) simp_all
      with le1 [of k'] show "length (filter (\<lambda>q. ?f q = k') posts) \<le> length members"
        by linarith
    qed
    have nonempty: "posts \<noteq> [] \<longrightarrow> ?out \<noteq> []"
    proof
      assume "posts \<noteq> []"
      then have "card (?f ` set posts) > 0"
        by (simp add: card_gt_0_iff)
      with len have "length ?out > 0" by simp
      then show "?out \<noteq> []" by blast
    qed
    show ?thesis
      using res dist members len largest nonempty small
      by (intro exI [of _ ?out]) (simp only: if_False simp_thms)
  next
    case False
    have big: ?big using False cond by simp
    have res: "groupPostsByTrends kw posts = Inr ?F"
      using False by (simp add: groupPostsByTrends_def assign Let_def)
    have dist: "distinct (map fst ?F)"
      by (rule distinct_keys_filter [OF E_dist])
    have members: "\<forall>(k, members) \<in> set ?F.
        members = filter (\<lambda>p. ?f p = k) posts \<and> members \<noteq> []"
      using mem by auto
    have keys: "fst ` set ?F = {k. 2 \<le> length (filter (\<lambda>q. ?f q = k) posts)}"
    proof (intro set_eqI iffI)
      fix k
      assume "k \<in> fst ` set ?F"
      then obtain ms where "(k, ms) \<in> set ?E" "2 \<le> length ms" by auto
      then show "k \<in> {k. 2 \<le> length (filter (\<lambda>q. ?f q = k) posts)}"
        using mem by simp
    next
      fix k
      assume "k \<in> {k. 2 \<le> length (filter (\<lambda>q. ?f q = k) posts)}"
      then have k: "2 \<le> length (filter (\<lambda>q. ?f q = k) posts)" by simp
      then have "filter (\<lambda>q. ?f q = k) posts \<noteq> []" by auto
      then have "(k, filter (\<lambda>q. ?f q = k) posts) \<in> set ?E"
        using mem by simp
      with k have "(k, filter (\<lambda>q. ?f q = k) posts) \<in> set ?F" by simp
      then show "k \<in> fst ` set ?F" by (rule image_eqI [rotated]) simp
    qed
    show ?thesis
      using res dist members keys big False
      by (intro exI [of _ ?F]) (simp only: if_True simp_thms)
  qed
qed
lemma groupPostsByTrends_example_keys:
  "group_key (\<lambda>_. []) example_normalised_post = ''Technology''"
  "group_key (\<lambda>_. []) example_normalised_tweet = ''#ai''"
  "group_key (\<lambda>_. []) (example_normalised_tweet\<lparr>post_id := ''18''\<rparr>) = ''#ai''"
  by (simp_all add: group_key_def groupKeys_def example_normalised_post_def
      example_normalised_tweet_def opt_or_def str_or_def)

lemma groupPostsByTrends_example_entries:
  "\<not> is_array_index ''Technology''" "\<not> is_array_index ''#ai''"
  by (simp_all add: is_array_index_def is_digit_def)

theorem groupPostsByTrends_threshold_and_fallback_witness:
  "list_all (\<lambda>post. group_key (\<lambda>_. []) post \<notin> set Object_prototype_names)
     [example_normalised_post, example_normalised_tweet,
      example_normalised_tweet\<lparr>post_id := ''18''\<rparr>] \<and>
   groupPostsByTrends (\<lambda>_. [])
     [example_normalised_post, example_normalised_tweet,
      example_normalised_tweet\<lparr>post_id := ''18''\<rparr>] =
     Inr [(''#ai'', [example_normalised_tweet, example_normalised_tweet\<lparr>post_id := ''18''\<rparr>])] \<and>
   groupPostsByTrends (\<lambda>_. []) [example_normalised_post, example_normalised_tweet] =
     Inr [(''Technology'', [example_normalised_post]), (''#ai'', [example_normalised_tweet])]"
proof -
  have safe: "list_all (\<lambda>post. group_key (\<lambda>_. []) post \<notin> set Object_prototype_names)
     [example_normalised_post, example_normalised_tweet,
      example_normalised_tweet\<lparr>post_id := ''18''\<rparr>]"
    by (simp add: groupPostsByTrends_example_keys Object_prototype_names_def)
  have r1: "groupPostsByTrends (\<lambda>_. [])
     [example_normalised_post, example_normalised_tweet,
      example_normalised_tweet\<lparr>post_id := ''18''\<rparr>] =
     Inr [(''#ai'', [example_normalised_tweet, example_normalised_tweet\<lparr>post_id := ''18''\<rparr>])]"
    by (simp add: groupPostsByTrends_def groupPostsByTrends_example_keys Object_prototype_names_def
        Object_entries_def groupPostsByTrends_example_entries Let_def)
  have r2: "groupPostsByTrends (\<lambda>_. []) [example_normalised_post, example_normalised_tweet] =
     Inr [(''Technology'', [example_normalised_post]), (''#ai'', [example_normalised_tweet])]"
    by (simp add: groupPostsByTrends_def groupPostsByTrends_example_keys Object_prototype_names_def
        Object_entries_def groupPostsByTrends_example_entries Let_def)
  show ?thesis
    using groupPostsByTrends_threshold_and_fallback
      [of "[example_normalised_post, example_normalised_tweet,
            example_normalised_tweet\<lparr>post_id := ''18''\<rparr>]" "\<lambda>_. []"] safe r1 r2
    by simp
qed

text \<open>
  The keywords never decide the key: for a Reddit post the candidate \<open>r/\<close> plus
  subreddit stands before them and is always usable, and the other posts have no
  keyword candidates. So the grouping is the same for every keyword extractor.
\<close>

lemma group_key_keywords_irrelevant: "group_key kw post = group_key kw' post"
  by (simp add: group_key_def groupKeys_def Let_def opt_or_def str_or_def split: option.splits)

section \<open>Rate limiting\<close>

lemma paced_Nil: "paced n W []"
  by (simp add: paced_def)

lemma paced_snoc:
  "paced n W (history @ [t]) \<longleftrightarrow>
     paced n W history \<and> length (filter (\<lambda>u. t - u < W) history) < n"
  by (auto simp: paced_def nth_append less_Suc_eq)

lemma length_filter_mono:
  "(\<And>x. x \<in> set xs \<Longrightarrow> P x \<Longrightarrow> Q x) \<Longrightarrow> length (filter P xs) \<le> length (filter Q xs)"
  by (induction xs) auto

lemma sorted_split_above:
  fixes xs :: "int list"
  assumes "sorted xs"
  shows "\<exists>ys. xs = ys @ filter (\<lambda>t. c < t) xs \<and> (\<forall>y \<in> set ys. y \<le> c)"
  using assms
proof (induction xs)
  case Nil
  show ?case by simp
next
  case (Cons x xs)
  show ?case
  proof (cases "c < x")
    case True
    with Cons.prems have "\<forall>t \<in> set (x # xs). c < t" by auto
    then have "filter (\<lambda>t. c < t) (x # xs) = x # xs"
      by (simp only: filter_True)
    then show ?thesis by (intro exI [of _ "[]"]) simp
  next
    case False
    from Cons obtain ys where ys: "xs = ys @ filter (\<lambda>t. c < t) xs" "\<forall>y \<in> set ys. y \<le> c"
      by auto
    from ys False show ?thesis
      by (intro exI [of _ "x # ys"]) auto
  qed
qed

lemma sorted_count_above_nth:
  fixes xs :: "int list"
  assumes "sorted xs" and "k < length xs"
  shows "length (filter (\<lambda>t. xs ! k < t) xs) \<le> length xs - Suc k"
proof -
  have split: "xs = take (Suc k) xs @ drop (Suc k) xs" by simp
  have "\<forall>t \<in> set (take (Suc k) xs). \<not> xs ! k < t"
  proof
    fix t assume "t \<in> set (take (Suc k) xs)"
    then obtain i where i: "i < Suc k" "i < length xs" "t = xs ! i"
      by (auto simp: in_set_conv_nth)
    then have "xs ! i \<le> xs ! k"
      using assms by (intro sorted_nth_mono) simp_all
    with i show "\<not> xs ! k < t" by simp
  qed
  then have "filter (\<lambda>t. xs ! k < t) (take (Suc k) xs) = []"
    by (simp add: filter_empty_conv)
  then have "filter (\<lambda>t. xs ! k < t) xs = filter (\<lambda>t. xs ! k < t) (drop (Suc k) xs)"
    by (subst split) (simp only: filter_append append_Nil)
  then have "length (filter (\<lambda>t. xs ! k < t) xs) \<le> length (drop (Suc k) xs)"
    by (simp only: length_filter_le)
  then show ?thesis by simp
qed
lemma paced_window:
  "paced n W history \<Longrightarrow> length (filter (\<lambda>t. a \<le> t \<and> t < a + W) history) \<le> n"
proof (induction history rule: rev_induct)
  case Nil
  show ?case by simp
next
  case (snoc t history)
  from snoc.prems have p: "paced n W history"
    and c: "length (filter (\<lambda>u. t - u < W) history) < n"
    by (simp_all add: paced_snoc)
  show ?case
  proof (cases "a \<le> t \<and> t < a + W")
    case True
    have "length (filter (\<lambda>u. a \<le> u \<and> u < a + W) history) \<le>
        length (filter (\<lambda>u. t - u < W) history)"
      using True by (intro length_filter_mono) linarith
    with c True show ?thesis by simp
  next
    case False
    with snoc.IH [OF p] show ?thesis by auto
  qed
qed

lemma sleep_ge: "0 \<le> sleep ms" "ms \<le> sleep ms"
  by (simp_all add: sleep_def)

lemma checkRateLimit_preserves:
  assumes inv: "limiter_inv clock s history" and now: "clock \<le> now"
  shows "limiter_inv (lastRequestTime (checkRateLimit now late lag s))
           (checkRateLimit now late lag s)
           (history @ [last (requestTimestamps (checkRateLimit now late lag s))])"
proof -
  let ?raw = "requestTimestamps s"
  let ?ts = "filter (\<lambda>t. now - t < 10 * 60 * 1000) ?raw"
  let ?recent = "length (filter (\<lambda>t. now - t < 60 * 1000) ?ts)"
  define w1 where "w1 = (if ?recent \<ge> MAX_REQUESTS_PER_MINUTE
      then sleep (60000 - (now - ?ts ! (length ?ts - MAX_REQUESTS_PER_MINUTE))) else 0)"
  define w2 where "w2 = (if length ?ts \<ge> MAX_REQUESTS_PER_10_MIN
      then sleep (10 * 60 * 1000 - (now - ?ts ! 0)) else 0)"
  define w3 where "w3 = (if now - lastRequestTime s < 600
      then sleep (600 - (now - lastRequestTime s)) else 0)"
  define p where "p = now + w1 + w2 + w3 + int late"
  have s': "checkRateLimit now late lag s =
      \<lparr> requestTimestamps = ?ts @ [p], lastRequestTime = p + int lag \<rparr>"
    by (simp only: checkRateLimit_def Let_def w1_def w2_def w3_def p_def)
  have w: "0 \<le> w1" "0 \<le> w2" "0 \<le> w3"
    by (simp_all add: w1_def w2_def w3_def sleep_ge)
  then have p_now: "now \<le> p" by (simp add: p_def)
  from inv obtain old where sorted: "sorted history"
    and le_clock: "\<forall>t \<in> set history. t \<le> clock"
    and paced1: "paced MAX_REQUESTS_PER_MINUTE 60000 history"
    and paced10: "paced MAX_REQUESTS_PER_10_MIN 600000 history"
    and hist: "history = old @ ?raw"
    and old: "\<forall>t \<in> set old. t + 600000 \<le> clock"
    unfolding limiter_inv_def by blast
  have sorted0: "sorted ?raw"
    using sorted hist by (simp add: sorted_append)
  have flt: "?ts = filter (\<lambda>t. now - 600000 < t) ?raw"
    by (rule filter_cong) auto
  from sorted_split_above [OF sorted0, of "now - 600000"]
  obtain dropped where dropped: "?raw = dropped @ ?ts" "\<forall>y \<in> set dropped. y \<le> now - 600000"
    unfolding flt by blast
  let ?old = "old @ dropped"
  have hist': "history = ?old @ ?ts"
    using hist dropped(1) by simp
  have old': "\<forall>t \<in> set ?old. t + 600000 \<le> now"
  proof
    fix t assume "t \<in> set ?old"
    then consider "t \<in> set old" | "t \<in> set dropped" by auto
    then show "t + 600000 \<le> now"
    proof cases
      case 1
      with old have "t + 600000 \<le> clock" by blast
      with now show ?thesis by linarith
    next
      case 2
      with dropped(2) have "t \<le> now - 600000" by blast
      then show ?thesis by linarith
    qed
  qed
  have ts_sorted: "sorted ?ts"
    using sorted0 by (rule sorted_wrt_filter)
  have ts_le: "\<forall>t \<in> set ?ts. t \<le> now"
  proof
    fix t assume "t \<in> set ?ts"
    then have "t \<in> set history" by (subst hist) simp
    with le_clock have "t \<le> clock" by blast
    with now show "t \<le> now" by linarith
  qed
  have ts_in: "\<forall>t \<in> set ?ts. now - t < 600000"
    by simp
  \<comment> \<open>the timestamps of the history inside a window that ends at \<open>p\<close> are stored ones\<close>
  have in_ts: "filter (\<lambda>u. p - u < W) history = filter (\<lambda>u. p - u < W) ?ts"
    if "W \<le> 600000" for W
  proof -
    have "\<not> p - u < W" if "u \<in> set ?old" for u
    proof -
      from old' that have "u + 600000 \<le> now" by blast
      with p_now \<open>W \<le> 600000\<close> show ?thesis by linarith
    qed
    then have "filter (\<lambda>u. p - u < W) ?old = []"
      by (simp only: filter_empty_conv) blast
    then show ?thesis
      by (subst hist') (simp only: filter_append append_Nil)
  qed
  have in1: "filter (\<lambda>u. p - u < 60000) history = filter (\<lambda>u. p - u < 60000) ?ts"
    by (rule in_ts) simp
  have in10: "filter (\<lambda>u. p - u < 600000) history = filter (\<lambda>u. p - u < 600000) ?ts"
    by (rule in_ts) simp
  \<comment> \<open>the minute window\<close>
  have minute: "length (filter (\<lambda>u. p - u < 60000) history) < MAX_REQUESTS_PER_MINUTE"
  proof (cases "?recent \<ge> MAX_REQUESTS_PER_MINUTE")
    case True
    let ?k = "length ?ts - MAX_REQUESTS_PER_MINUTE"
    have "?recent \<le> length ?ts" by (rule length_filter_le)
    with True have len: "MAX_REQUESTS_PER_MINUTE \<le> length ?ts" by linarith
    then have k: "?k < length ?ts"
      unfolding MAX_REQUESTS_PER_MINUTE_def by linarith
    have "w1 = sleep (60000 - (now - ?ts ! ?k))"
      using True by (simp add: w1_def)
    then have "60000 - (now - ?ts ! ?k) \<le> w1"
      by (simp add: sleep_ge)
    with w have p_ge: "?ts ! ?k + 60000 \<le> p"
      by (simp add: p_def)
    have "length (filter (\<lambda>u. p - u < 60000) ?ts) \<le> length (filter (\<lambda>t. ?ts ! ?k < t) ?ts)"
      using p_ge by (intro length_filter_mono) linarith
    also have "\<dots> \<le> length ?ts - Suc ?k"
      by (rule sorted_count_above_nth [OF ts_sorted k])
    also have "\<dots> < MAX_REQUESTS_PER_MINUTE"
      using len by (simp add: MAX_REQUESTS_PER_MINUTE_def)
    finally show ?thesis
      unfolding in1 .
  next
    case False
    have "length (filter (\<lambda>u. p - u < 60000) ?ts) \<le> ?recent"
      using p_now by (intro length_filter_mono) linarith
    with False show ?thesis
      unfolding in1 by linarith
  qed
  \<comment> \<open>at most 996 timestamps are stored after the pruning\<close>
  have stored: "length ?ts \<le> MAX_REQUESTS_PER_10_MIN"
  proof (cases "?ts = []")
    case True
    then show ?thesis by simp
  next
    case False
    then have ts_snoc: "?ts = butlast ?ts @ [last ?ts]" by simp
    have "history = (?old @ butlast ?ts) @ [last ?ts]"
      using hist' ts_snoc by (metis append_assoc)
    with paced10 have c: "length (filter (\<lambda>u. last ?ts - u < 600000) (?old @ butlast ?ts)) <
        MAX_REQUESTS_PER_10_MIN"
      by (metis paced_snoc)
    have m: "last ?ts \<le> now"
      using False ts_le last_in_set by blast
    have "\<forall>u \<in> set (butlast ?ts). last ?ts - u < 600000"
    proof
      fix u assume "u \<in> set (butlast ?ts)"
      then have "u \<in> set ?ts" by (rule in_set_butlastD)
      then have "now - u < 600000" by simp
      with m show "last ?ts - u < 600000" by linarith
    qed
    then have "filter (\<lambda>u. last ?ts - u < 600000) (butlast ?ts) = butlast ?ts"
      by (simp only: filter_True)
    then have "length (butlast ?ts) \<le>
        length (filter (\<lambda>u. last ?ts - u < 600000) (?old @ butlast ?ts))"
      by (simp only: filter_append length_append le_add2)
    with c have "length (butlast ?ts) < MAX_REQUESTS_PER_10_MIN" by linarith
    then show ?thesis by simp
  qed
  \<comment> \<open>the ten-minute window\<close>
  have ten: "length (filter (\<lambda>u. p - u < 600000) history) < MAX_REQUESTS_PER_10_MIN"
  proof (cases "length ?ts \<ge> MAX_REQUESTS_PER_10_MIN")
    case True
    then have k: "0 < length ?ts"
      unfolding MAX_REQUESTS_PER_10_MIN_def by linarith
    have "w2 = sleep (10 * 60 * 1000 - (now - ?ts ! 0))"
      using True by (simp add: w2_def)
    then have "600000 - (now - ?ts ! 0) \<le> w2"
      using sleep_ge(2) [of "10 * 60 * 1000 - (now - ?ts ! 0)"] by simp
    with w have p_ge: "?ts ! 0 + 600000 \<le> p"
      by (simp add: p_def)
    have "length (filter (\<lambda>u. p - u < 600000) ?ts) \<le> length (filter (\<lambda>t. ?ts ! 0 < t) ?ts)"
      using p_ge by (intro length_filter_mono) linarith
    also have "\<dots> \<le> length ?ts - Suc 0"
      by (rule sorted_count_above_nth [OF ts_sorted k])
    also have "\<dots> < MAX_REQUESTS_PER_10_MIN"
      using stored k by linarith
    finally show ?thesis
      unfolding in10 .
  next
    case False
    have "length (filter (\<lambda>u. p - u < 600000) ?ts) \<le> length ?ts"
      by (rule length_filter_le)
    with False show ?thesis
      unfolding in10 by linarith
  qed
  have hist_le: "t \<le> p" if "t \<in> set history" for t
  proof -
    from le_clock that have "t \<le> clock" by blast
    with now p_now show ?thesis by linarith
  qed
  have sorted': "sorted (history @ [p])"
    using sorted hist_le by (simp add: sorted_append)
  have le': "\<forall>t \<in> set (history @ [p]). t \<le> p + int lag"
  proof
    fix t assume "t \<in> set (history @ [p])"
    then have "t \<le> p" using hist_le by auto
    then show "t \<le> p + int lag" by linarith
  qed
  have old'': "\<forall>t \<in> set ?old. t + 600000 \<le> p + int lag"
  proof
    fix t assume "t \<in> set ?old"
    with old' have "t + 600000 \<le> now" by blast
    with p_now show "t + 600000 \<le> p + int lag" by linarith
  qed
  have split': "history @ [p] = ?old @ (?ts @ [p])"
    using hist' by simp
  have rt: "requestTimestamps (checkRateLimit now late lag s) = ?ts @ [p]"
    and lt: "lastRequestTime (checkRateLimit now late lag s) = p + int lag"
    by (simp_all add: s')
  show ?thesis
    unfolding limiter_inv_def rt lt last_snoc
  proof (intro conjI)
    show "sorted (history @ [p])" by (rule sorted')
    show "\<forall>t \<in> set (history @ [p]). t \<le> p + int lag" by (rule le')
    show "paced MAX_REQUESTS_PER_MINUTE 60000 (history @ [p])"
      using paced1 minute by (simp only: paced_snoc simp_thms)
    show "paced MAX_REQUESTS_PER_10_MIN 600000 (history @ [p])"
      using paced10 ten by (simp only: paced_snoc simp_thms)
    show "\<exists>old. history @ [p] = old @ ?ts @ [p] \<and> (\<forall>t \<in> set old. t + 600000 \<le> p + int lag)"
      using split' old'' by blast
  qed
qed

lemma limiter_inv_initial: "limiter_inv clock initial_limiter []"
  by (simp add: limiter_inv_def initial_limiter_def paced_Nil)

lemma simulate_paced:
  "limiter_inv clock s history \<Longrightarrow>
   paced MAX_REQUESTS_PER_MINUTE 60000 (history @ simulate clock s ticks) \<and>
   paced MAX_REQUESTS_PER_10_MIN 600000 (history @ simulate clock s ticks)"
proof (induction ticks arbitrary: clock s history)
  case Nil
  then show ?case by (simp add: limiter_inv_def)
next
  case (Cons tick ticks)
  obtain idle late lag where tick: "tick = (idle, late, lag)"
    by (cases tick) auto
  let ?s' = "checkRateLimit (clock + int idle) late lag s"
  have "limiter_inv (lastRequestTime ?s') ?s' (history @ [last (requestTimestamps ?s')])"
    using Cons.prems by (rule checkRateLimit_preserves) simp
  from Cons.IH [OF this] show ?case
    by (simp add: tick Let_def)
qed
text \<open>
  C2. Take any run of the limiter on a simulated clock, from the initial state: any
  starting time, any number of calls, any idle times between them, timers that fire on
  time or late. Then every window of 60 seconds contains at most 100 of the recorded
  timestamps of the allowed requests, and every window of 10 minutes at most 996. A
  window of \<open>W\<close> milliseconds is a half-open interval \<open>[a, a + W)\<close>, as in the code,
  which counts a timestamp as inside the window while it is less than \<open>W\<close> old.
\<close>

theorem rate_ceiling_never_exceeded:
  "length (filter (\<lambda>t. a \<le> t \<and> t < a + 60000) (simulate clock initial_limiter ticks)) \<le> 100 \<and>
   length (filter (\<lambda>t. a \<le> t \<and> t < a + 600000) (simulate clock initial_limiter ticks)) \<le> 996"
proof -
  have "paced MAX_REQUESTS_PER_MINUTE 60000 ([] @ simulate clock initial_limiter ticks) \<and>
      paced MAX_REQUESTS_PER_10_MIN 600000 ([] @ simulate clock initial_limiter ticks)"
    by (rule simulate_paced [OF limiter_inv_initial])
  then have "paced 100 60000 (simulate clock initial_limiter ticks)"
    and "paced 996 600000 (simulate clock initial_limiter ticks)"
    by (simp_all add: MAX_REQUESTS_PER_MINUTE_def MAX_REQUESTS_PER_10_MIN_def)
  then show ?thesis
    by (intro conjI paced_window)
qed

theorem rate_ceiling_never_exceeded_witness:
  "simulate 0 initial_limiter [(0, 0, 0), (0, 0, 0), (100, 0, 0)] = [600, 1200, 1800] \<and>
   length (filter (\<lambda>t. 600 \<le> t \<and> t < 600 + 60000)
     (simulate 0 initial_limiter [(0, 0, 0), (0, 0, 0), (100, 0, 0)])) = 3"
proof -
  have run: "simulate 0 initial_limiter [(0, 0, 0), (0, 0, 0), (100, 0, 0)] = [600, 1200, 1800]"
    by (simp add: checkRateLimit_def initial_limiter_def sleep_def Let_def
        MAX_REQUESTS_PER_MINUTE_def MAX_REQUESTS_PER_10_MIN_def)
  show ?thesis
    using rate_ceiling_never_exceeded [of 600 0 "[(0, 0, 0), (0, 0, 0), (100, 0, 0)]"]
    unfolding run by simp
qed

section \<open>The paginated fetch\<close>

lemma backoffTime_le: "backoffTime n \<le> 30000"
  by (simp add: backoffTime_def)

lemma backoffTime_mono: "m \<le> n \<Longrightarrow> backoffTime m \<le> backoffTime n"
proof -
  assume "m \<le> n"
  then have "(2::int) ^ m \<le> 2 ^ n"
    by (intro power_increasing) simp_all
  then show ?thesis
    by (simp add: backoffTime_def min_le_iff_disj)
qed

lemma fetch_pages_retry_once:
  assumes "int (page s) < pagesNeeded"
    and "snd (world (length (requested s))) = HttpError 429"
  shows "fetch_pages world pagesNeeded s =
         fetch_pages world pagesNeeded
           (s\<lparr>requested := requested s @ [(page s, after s)],
              backoffs := backoffs s @ [backoffTime (page s)]\<rparr>)"
  using assms by (subst fetch_pages.simps) (simp add: page_step_def)

lemma fetch_pages_retry:
  assumes "int (page s) < pagesNeeded"
    and "\<forall>i<n. snd (world (length (requested s) + i)) = HttpError 429"
  shows "fetch_pages world pagesNeeded s =
         fetch_pages world pagesNeeded
           (s\<lparr>requested := requested s @ replicate n (page s, after s),
              backoffs := backoffs s @ replicate n (backoffTime (page s))\<rparr>)"
  using assms
proof (induction n arbitrary: s)
  case 0
  show ?case by simp
next
  case (Suc n)
  let ?s1 = "s\<lparr>requested := requested s @ [(page s, after s)],
      backoffs := backoffs s @ [backoffTime (page s)]\<rparr>"
  have first: "snd (world (length (requested s))) = HttpError 429"
    using Suc.prems(2) by (metis add.right_neutral zero_less_Suc)
  have rest: "\<forall>i<n. snd (world (length (requested ?s1) + i)) = HttpError 429"
  proof (intro allI impI)
    fix i assume "i < n"
    then have "snd (world (length (requested s) + Suc i)) = HttpError 429"
      using Suc.prems(2) by (metis Suc_less_eq)
    then show "snd (world (length (requested ?s1) + i)) = HttpError 429"
      by simp
  qed
  have "fetch_pages world pagesNeeded s = fetch_pages world pagesNeeded ?s1"
    using Suc.prems(1) first by (rule fetch_pages_retry_once)
  also have "\<dots> = fetch_pages world pagesNeeded
      (?s1\<lparr>requested := requested ?s1 @ replicate n (page ?s1, after ?s1),
           backoffs := backoffs ?s1 @ replicate n (backoffTime (page ?s1))\<rparr>)"
    using Suc.prems(1) rest by (intro Suc.IH) simp_all
  also have "?s1\<lparr>requested := requested ?s1 @ replicate n (page ?s1, after ?s1),
      backoffs := backoffs ?s1 @ replicate n (backoffTime (page ?s1))\<rparr> =
      s\<lparr>requested := requested s @ replicate (Suc n) (page s, after s),
        backoffs := backoffs s @ replicate (Suc n) (backoffTime (page s))\<rparr>"
    by simp
  finally show ?case .
qed

lemma fetch_pages_other_error:
  assumes "int (page s) < pagesNeeded"
    and "snd (world (length (requested s))) = HttpError status" and "status \<noteq> 429"
  shows "fetch_pages world pagesNeeded s =
         Some (Inr (s\<lparr>requested := requested s @ [(page s, after s)]\<rparr>))"
  using assms by (subst fetch_pages.simps) (simp add: page_step_def)

text \<open>A server that answers every request with 429 keeps the loop running for ever.\<close>

lemma fetch_pages_never_returns:
  assumes always: "\<forall>n. snd (world n) = HttpError 429"
    and more: "int (page s) < pagesNeeded"
  shows "fetch_pages world pagesNeeded s = None"
proof (rule ccontr)
  assume "fetch_pages world pagesNeeded s \<noteq> None"
  then obtain r where r: "fetch_pages world pagesNeeded s = Some r" by auto
  have "(\<forall>n. snd (world n) = HttpError 429) \<longrightarrow> int (page s) < pagesNeeded \<longrightarrow> False"
  proof (induction world pagesNeeded s r rule: fetch_pages.raw_induct)
    case (1 f w pn st res)
    show ?case
    proof (intro impI)
      assume a: "\<forall>n. snd (w n) = HttpError 429" and m: "int (page st) < pn"
      let ?st' = "st\<lparr>requested := requested st @ [(page st, after st)],
          backoffs := backoffs st @ [backoffTime (page st)]\<rparr>"
      from a have "snd (w (length (requested st))) = HttpError 429" by blast
      with m 1(2) have "f w pn ?st' = Some res"
        by (simp add: page_step_def)
      from 1(1) [OF this] a m show False by simp
    qed
  qed (rule r)
  with always more show False by blast
qed

text \<open>
  In a run that returns, the backoff delays slept form a non-decreasing sequence
  bounded by the backoff time of the current page.
\<close>

lemma fetch_pages_backoffs:
  assumes "fetch_pages world pagesNeeded s = Some (Inr s')"
    and "sorted (backoffs s)" and "\<forall>d \<in> set (backoffs s). d \<le> backoffTime (page s)"
  shows "sorted (backoffs s') \<and> (\<forall>d \<in> set (backoffs s'). d \<le> 30000)"
proof -
  have "\<forall>s'. r = Inr s' \<longrightarrow> sorted (backoffs s) \<longrightarrow>
      (\<forall>d \<in> set (backoffs s). d \<le> backoffTime (page s)) \<longrightarrow>
      sorted (backoffs s') \<and> (\<forall>d \<in> set (backoffs s'). d \<le> 30000)"
    if r: "fetch_pages world pagesNeeded s = Some r" for r
  proof (induction world pagesNeeded s r rule: fetch_pages.raw_induct)
    case (1 f w pn st res)
    show ?case
    proof (intro allI impI)
      fix s'
      assume res: "res = Inr s'" and so: "sorted (backoffs st)"
        and bd: "\<forall>d \<in> set (backoffs st). d \<le> backoffTime (page st)"
      have bd30: "\<forall>d \<in> set (backoffs st). d \<le> 30000"
        using bd backoffTime_le [of "page st"] by (meson order_trans)
      let ?st1 = "st\<lparr>requested := requested st @ [(page st, after st)]\<rparr>"
      show "sorted (backoffs s') \<and> (\<forall>d \<in> set (backoffs s'). d \<le> 30000)"
      proof (cases "int (page st) < pn")
        case False
        with 1(2) res have "s' = st" by simp
        with so bd30 show ?thesis by simp
      next
        case True
        show ?thesis
        proof (cases "page_step (w (length (requested st))) ?st1")
          case Throw
          with True 1(2) res show ?thesis by simp
        next
          case (Break b)
          with True 1(2) res have b: "b = s'" by simp
          from Break have "backoffs b = backoffs st"
            by (auto simp: page_step_def Let_def split: response.splits if_splits)
          with so bd30 b show ?thesis by simp
        next
          case (Continue c)
          with True 1(2) have call: "f w pn c = Some res" by simp
          from Continue have "(backoffs c = backoffs st @ [backoffTime (page st)] \<and> page c = page st)
              \<or> (backoffs c = backoffs st \<and> page c = page st + 1)"
            by (auto simp: page_step_def Let_def split: response.splits if_splits)
          then have "sorted (backoffs c) \<and> (\<forall>d \<in> set (backoffs c). d \<le> backoffTime (page c))"
          proof
            assume "backoffs c = backoffs st @ [backoffTime (page st)] \<and> page c = page st"
            with so bd show ?thesis by (simp add: sorted_append)
          next
            assume c: "backoffs c = backoffs st \<and> page c = page st + 1"
            have "backoffTime (page st) \<le> backoffTime (page st + 1)"
              by (rule backoffTime_mono) simp
            with bd have "\<forall>d \<in> set (backoffs st). d \<le> backoffTime (page st + 1)"
              by (meson order_trans)
            with so c show ?thesis by simp
          qed
          with 1(1) [OF call] res show ?thesis by blast
        qed
      qed
    qed
  qed (rule r)
  from this [OF assms(1)] assms(2,3) show ?thesis by blast
qed

lemma pagesNeeded_positive:
  "0 < maxItems \<Longrightarrow>
   0 < \<lceil>(of_int (min maxItems MAX_ITEMS_PER_SUBREDDIT) :: rat) / of_int ITEMS_PER_REQUEST\<rceil>"
  by (simp add: MAX_ITEMS_PER_SUBREDDIT_def ITEMS_PER_REQUEST_def)
text \<open>
  C1, as the code has it. While the server answers a page request with 429, the
  fetcher sleeps for the backoff time of the page, \<open>min(1000 * 2^page, 30000)\<close>
  milliseconds, and sends the same request again: \<open>n\<close> such answers in a row leave the
  page index, the cursor and the collected posts as they were and add \<open>n\<close> equal
  requests and \<open>n\<close> equal delays to the logs, for every \<open>n\<close>; there is no bound on
  the number of retries. Each delay is at most 30000, and in a run that returns the
  delays slept form a non-decreasing sequence. On any other error status the loop ends
  and the posts collected so far are returned. Against a server that answers 429 for
  ever, a fetch of at least one item never returns.
\<close>

theorem backoff_capped_same_page_retried_without_bound:
  "(int (page s) < pagesNeeded \<and>
    (\<forall>i<n. snd (world (length (requested s) + i)) = HttpError 429) \<longrightarrow>
      fetch_pages world pagesNeeded s =
      fetch_pages world pagesNeeded
        (s\<lparr>requested := requested s @ replicate n (page s, after s),
           backoffs := backoffs s @ replicate n (backoffTime (page s))\<rparr>)) \<and>
   backoffTime (page s) \<le> 30000 \<and>
   (fetch_pages world pagesNeeded initial_fetch_state = Some (Inr s') \<longrightarrow>
      sorted (backoffs s') \<and> (\<forall>d \<in> set (backoffs s'). d \<le> 30000)) \<and>
   (int (page s) < pagesNeeded \<and> snd (world (length (requested s))) = HttpError status \<and>
    status \<noteq> 429 \<longrightarrow>
      fetch_pages world pagesNeeded s =
      Some (Inr (s\<lparr>requested := requested s @ [(page s, after s)]\<rparr>))) \<and>
   (0 < maxItems \<and> (\<forall>k. snd (world k) = HttpError 429) \<longrightarrow>
      fetchMaxViralPosts world maxItems = None)"
proof (intro conjI impI)
  assume "int (page s) < pagesNeeded \<and>
    (\<forall>i<n. snd (world (length (requested s) + i)) = HttpError 429)"
  then show "fetch_pages world pagesNeeded s =
      fetch_pages world pagesNeeded
        (s\<lparr>requested := requested s @ replicate n (page s, after s),
           backoffs := backoffs s @ replicate n (backoffTime (page s))\<rparr>)"
    by (intro fetch_pages_retry) simp_all
next
  show "backoffTime (page s) \<le> 30000" by (rule backoffTime_le)
next
  assume r: "fetch_pages world pagesNeeded initial_fetch_state = Some (Inr s')"
  have "sorted (backoffs s') \<and> (\<forall>d \<in> set (backoffs s'). d \<le> 30000)"
    by (rule fetch_pages_backoffs [OF r]) (simp_all add: initial_fetch_state_def)
  then show "sorted (backoffs s')" and "\<forall>d \<in> set (backoffs s'). d \<le> 30000"
    by simp_all
next
  assume "int (page s) < pagesNeeded \<and> snd (world (length (requested s))) = HttpError status \<and>
    status \<noteq> 429"
  then show "fetch_pages world pagesNeeded s =
      Some (Inr (s\<lparr>requested := requested s @ [(page s, after s)]\<rparr>))"
    by (intro fetch_pages_other_error [where status = status]) simp_all
next
  assume a: "0 < maxItems \<and> (\<forall>k. snd (world k) = HttpError 429)"
  let ?pages = "\<lceil>(of_int (min maxItems MAX_ITEMS_PER_SUBREDDIT) :: rat) / of_int ITEMS_PER_REQUEST\<rceil>"
  have "0 < ?pages"
    using a by (intro pagesNeeded_positive) simp
  then have "int (page initial_fetch_state) < ?pages"
    by (simp add: initial_fetch_state_def)
  with a have "fetch_pages world ?pages initial_fetch_state = None"
    by (intro fetch_pages_never_returns) simp_all
  then show "fetchMaxViralPosts world maxItems = None"
    by (simp add: fetchMaxViralPosts_def Let_def)
qed

theorem backoff_capped_same_page_retried_without_bound_witness:
  "fetch_pages retry_twice_world 1 initial_fetch_state =
     Some (Inr \<lparr> page = 0, after = None, allPosts = [],
                 requested = [(0, None), (0, None), (0, None)], backoffs = [1000, 1000] \<rparr>)"
proof -
  have hyp: "int (page initial_fetch_state) < 1 \<and>
      (\<forall>i<2. snd (retry_twice_world (length (requested initial_fetch_state) + i)) = HttpError 429)"
    by (simp add: initial_fetch_state_def retry_twice_world_def)
  have "fetch_pages retry_twice_world 1 initial_fetch_state =
      fetch_pages retry_twice_world 1
        (initial_fetch_state\<lparr>requested := requested initial_fetch_state @
             replicate 2 (page initial_fetch_state, after initial_fetch_state),
           backoffs := backoffs initial_fetch_state @
             replicate 2 (backoffTime (page initial_fetch_state))\<rparr>)"
    using backoff_capped_same_page_retried_without_bound
      [of initial_fetch_state 1 2 retry_twice_world] hyp
    by blast
  also have "\<dots> = Some (Inr \<lparr> page = 0, after = None, allPosts = [],
      requested = [(0, None), (0, None), (0, None)], backoffs = [1000, 1000] \<rparr>)"
    by (subst fetch_pages.simps)
      (simp add: initial_fetch_state_def retry_twice_world_def page_step_def backoffTime_def
        numeral_2_eq_2)
  finally show ?thesis .
qed

text \<open>
  C1 as stated fails: against the server that answers 429 to every request, the fetch
  of 100 items never abandons the source and never returns.
\<close>

theorem fetch_retries_forever_counterexample:
  "fetchMaxViralPosts always_429 100 = None"
proof -
  have "fetch_pages always_429 1 initial_fetch_state = None"
    by (rule fetch_pages_never_returns) (simp_all add: always_429_def initial_fetch_state_def)
  then show ?thesis
    by (simp add: fetchMaxViralPosts_def MAX_ITEMS_PER_SUBREDDIT_def ITEMS_PER_REQUEST_def)
qed

lemma transformPost_fields:
  "engagement_score (transformPost now post) = Reddit_calculateEngagementScore now post"
  "platform_post_id (transformPost now post) = subreddit post @ ''_'' @ reddit_id post"
  by (simp_all add: transformPost_def)

text \<open>
  C7 fails on the code: \<open>fetchMaxViralPosts\<close> asked for at most 1 item requests a
  whole page and returns every valid post of it, here 2 posts; and so does
  \<open>fetchMultiViralContent\<close> asked for at most 1 post from its one subreddit.
\<close>

theorem fetchMaxViralPosts_exceeds_maxItems:
  "map_option (map_sum id (map platform_post_id)) (fetchMaxViralPosts two_posts_world 1) =
     Some (Inr [''programming_a1'', ''programming_a2'']) \<and>
   map_option (map_sum id length) (fetchMaxViralPosts two_posts_world 1) = Some (Inr 2) \<and>
   map_option (map platform_post_id)
     (fetchMultiViralContent (\<lambda>i. two_posts_world) [''programming''] 1) =
     Some [''programming_a1'', ''programming_a2'']"
proof -
  let ?p1 = "example_post"
  let ?p2 = "example_post\<lparr>reddit_id := ''a2'', score := 60\<rparr>"
  have valid: "isValidPost ?p1" "isValidPost ?p2"
    by (simp_all add: isValidPost_def example_post_def toLowerCase_def toLowerCase_char_def)
  have scores: "Reddit_calculateEngagementScore 1000000 ?p1 = 200"
    "Reddit_calculateEngagementScore 1000000 ?p2 = 172"
    by (simp_all add: Reddit_calculateEngagementScore_def example_post_def
        calculateRecencyBonus_def Math_round_def floor_eq_iff)
  have pages: "\<lceil>(of_int (min 1 MAX_ITEMS_PER_SUBREDDIT) :: rat) / of_int ITEMS_PER_REQUEST\<rceil> = 1"
    by (simp add: MAX_ITEMS_PER_SUBREDDIT_def ITEMS_PER_REQUEST_def ceiling_eq_iff)
  have loop: "fetch_pages two_posts_world 1 initial_fetch_state =
      Some (Inr \<lparr> page = 0, after = None,
        allPosts = [transformPost 1000000 ?p1, transformPost 1000000 ?p2],
        requested = [(0, None)], backoffs = [] \<rparr>)"
    by (subst fetch_pages.simps)
      (simp add: initial_fetch_state_def two_posts_world_def page_step_def
        transformRedditData_def valid Let_def)
  have result: "fetchMaxViralPosts two_posts_world 1 =
      Some (Inr [transformPost 1000000 ?p1, transformPost 1000000 ?p2])"
    by (simp add: fetchMaxViralPosts_def Let_def pages loop transformPost_fields scores)
  have keys: "platform_post_id (transformPost 1000000 ?p1) = ''programming_a1''"
    "platform_post_id (transformPost 1000000 ?p2) = ''programming_a2''"
    by (simp_all add: transformPost_fields example_post_def)
  have multi: "fetchMultiViralContent (\<lambda>i. two_posts_world) [''programming''] 1 =
      Some [transformPost 1000000 ?p1, transformPost 1000000 ?p2]"
    by (simp add: fetchMultiViralContent_def result removeDuplicatePosts_def Let_def keys
        transformPost_fields(1) scores)
  show ?thesis
    by (simp add: result multi keys)
qed

end
